theory Spec2Isabelle
  imports Complex_Main
begin

section \<open>Errors\<close>

text \<open>
  The Python exceptions the modelled code can raise. A computation that may raise
  returns \<open>error + 'a\<close>, with \<open>Inl\<close> for the exception.
\<close>

datatype error =
    ValueError
  | IndexError
  | RuntimeError string

section \<open>Floating-point numbers\<close>

text \<open>
  A float of Python and NumPy is a real number, an infinity or NaN. The finite floats are
  modelled as exact reals: rounding, overflow and the sign of zero are left out. Where a
  computation starts from finite numbers and stays finite in the reals (the calculation of
  \<open>formation\<close>), it is written over \<open>real\<close> directly; what is read from a file or divided
  is a \<open>pyfloat\<close>.
\<close>

datatype pyfloat = Finite real | PosInf | NegInf | NaN

text \<open>\<open>a - b\<close> on floats.\<close>

fun fl_sub :: "pyfloat \<Rightarrow> pyfloat \<Rightarrow> pyfloat" where
  "fl_sub (Finite x) (Finite y) = Finite (x - y)"
| "fl_sub NaN b = NaN"
| "fl_sub a NaN = NaN"
| "fl_sub PosInf PosInf = NaN"
| "fl_sub NegInf NegInf = NaN"
| "fl_sub PosInf b = PosInf"
| "fl_sub NegInf b = NegInf"
| "fl_sub (Finite x) PosInf = NegInf"
| "fl_sub (Finite x) NegInf = PosInf"

text \<open>
  \<open>a / b\<close> on the floats of a NumPy array: a division by zero gives an infinity with the
  sign of the dividend, and NaN for \<open>0 / 0\<close>; it raises nothing.
\<close>

fun fl_div :: "pyfloat \<Rightarrow> pyfloat \<Rightarrow> pyfloat" where
  "fl_div (Finite x) (Finite y) =
     (if y \<noteq> 0 then Finite (x / y)
      else if x = 0 then NaN else if 0 < x then PosInf else NegInf)"
| "fl_div NaN b = NaN"
| "fl_div a NaN = NaN"
| "fl_div (Finite x) b = Finite 0"
| "fl_div PosInf (Finite y) = (if 0 \<le> y then PosInf else NegInf)"
| "fl_div NegInf (Finite y) = (if 0 \<le> y then NegInf else PosInf)"
| "fl_div a b = NaN"

text \<open>The order in which \<open>np.sort\<close> and \<open>np.unique\<close> arrange floats: NaN comes last.\<close>

fun fl_le :: "pyfloat \<Rightarrow> pyfloat \<Rightarrow> bool" where
  "fl_le a NaN = True"
| "fl_le NaN b = False"
| "fl_le NegInf b = True"
| "fl_le a NegInf = False"
| "fl_le a PosInf = True"
| "fl_le PosInf b = False"
| "fl_le (Finite x) (Finite y) = (x \<le> y)"

fun fl_insert :: "pyfloat \<Rightarrow> pyfloat list \<Rightarrow> pyfloat list" where
  "fl_insert x [] = [x]"
| "fl_insert x (y # ys) = (if fl_le x y then x # y # ys else y # fl_insert x ys)"

definition fl_sort :: "pyfloat list \<Rightarrow> pyfloat list" where
  "fl_sort xs = foldr fl_insert xs []"

section \<open>The formation-energy calculation (\<open>defect.py\<close>, \<open>formation\<close>)\<close>

text \<open>
  \<open>formation\<close> is modelled from its \<open># calculation\<close> part on: the charge states
  \<open>ipt.valence\<close>, the energies \<open>E0q\<close> of the summary loop, the interval \<open>ipt.emin\<close>,
  \<open>ipt.emax\<close> and the number of points \<open>ipt.npts\<close> are its inputs, all of them finite.
\<close>

text \<open>
  \<open>np.linspace(start, stop, num)\<close>: a negative \<open>num\<close> raises; otherwise the samples are
  \<open>start + i * step\<close> with \<open>step = (stop - start) / (num - 1)\<close>, and for \<open>num > 1\<close> the last
  one is overwritten with \<open>stop\<close>.
\<close>

definition linspace :: "real \<Rightarrow> real \<Rightarrow> int \<Rightarrow> error + real list" where
  "linspace start stop num =
     (if num < 0 then Inl ValueError
      else if num = 0 then Inr []
      else if num = 1 then Inr [start]
      else let n = nat num;
               step = (stop - start) / real (n - 1);
               y = map (\<lambda>i. start + real i * step) [0..<n]
           in Inr (y[n - 1 := stop]))"

text \<open>
  One row of \<open>Eform = q * miu + E0q\<close>: the formation energy of every charge state at the
  Fermi level \<open>m\<close>. The arrays \<open>q\<close> and \<open>E0q\<close> broadcast only when they are equally long.
\<close>

definition Eform_row :: "int list \<Rightarrow> real list \<Rightarrow> real \<Rightarrow> real list" where
  "Eform_row q E0q m = map (\<lambda>(qi, e). real_of_int qi * m + e) (zip q E0q)"

text \<open>\<open>min\<close> and \<open>argmin\<close> along the last axis; \<open>argmin\<close> gives the first index of the minimum.\<close>

fun row_min :: "real list \<Rightarrow> real" where
  "row_min [] = 0"
| "row_min [x] = x"
| "row_min (x # y # ys) = min x (row_min (y # ys))"

fun row_argmin :: "real list \<Rightarrow> nat" where
  "row_argmin [] = 0"
| "row_argmin [x] = 0"
| "row_argmin (x # y # ys) =
     (if x \<le> row_min (y # ys) then 0 else Suc (row_argmin (y # ys)))"

text \<open>\<open>np.unique\<close>: the distinct entries in increasing order.\<close>

definition np_unique :: "nat list \<Rightarrow> nat list" where
  "np_unique xs = sort (remdups xs)"

text \<open>
  The transition level and the defect energy printed for two consecutive stable charge
  states \<open>(q1, e1)\<close> = \<open>(tq[i-1], eq[i-1])\<close> and \<open>(q2, e2)\<close> = \<open>(tq[i], eq[i])\<close>.
\<close>

definition E_t :: "int \<Rightarrow> real \<Rightarrow> int \<Rightarrow> real \<Rightarrow> real" where
  "E_t q1 e1 q2 e2 = - (e2 - e1) / real_of_int (q2 - q1)"

definition E_d :: "int \<Rightarrow> real \<Rightarrow> int \<Rightarrow> real \<Rightarrow> real" where
  "E_d q1 e1 q2 e2 =
     (real_of_int q2 * e1 - real_of_int q1 * e2) / real_of_int (q2 - q1)"

text \<open>
  The loop \<open>for i in reversed(range(1, len(tq)))\<close>: one printed line
  \<open>((tq[i-1], tq[i]), E_t, E_d)\<close> for every \<open>i\<close>, the largest \<open>i\<close> first.
\<close>

definition transitions :: "int list \<Rightarrow> real list \<Rightarrow> ((int \<times> int) \<times> real \<times> real) list" where
  "transitions tq eq =
     map (\<lambda>i. ((tq ! (i - 1), tq ! i),
                E_t (tq ! (i - 1)) (eq ! (i - 1)) (tq ! i) (eq ! i),
                E_d (tq ! (i - 1)) (eq ! (i - 1)) (tq ! i) (eq ! i)))
         (rev [1..<length tq])"

text \<open>The formation-energy line of a charge state: \<open>E0 + q * Ef\<close>.\<close>

definition line :: "int \<Rightarrow> real \<Rightarrow> real \<Rightarrow> real" where
  "line q e Ef = e + real_of_int q * Ef"

record formation_out =
  miu :: "real list"
  Efmin :: "real list"
  Eform :: "real list list"
  tq :: "int list"
  eq :: "real list"
  printed :: "((int \<times> int) \<times> real \<times> real) list"

text \<open>
  The calculation itself. It raises where the source does: \<open>linspace\<close> on a negative
  number of points, the broadcast of \<open>q * miu + E0q\<close> on arrays of different lengths,
  \<open>Eform.min\<close> on an empty last axis, and \<open>miu[0, 0]\<close> on an empty table.
\<close>

definition formation_calc ::
  "int list \<Rightarrow> real list \<Rightarrow> real \<Rightarrow> real \<Rightarrow> int \<Rightarrow> error + formation_out" where
  "formation_calc valence E0q emin emax npts =
     (case linspace emin emax npts of
        Inl e \<Rightarrow> Inl e
      | Inr mu \<Rightarrow>
          if length valence \<noteq> length E0q then Inl ValueError
          else if valence = [] then Inl ValueError
          else let Ef = map (Eform_row valence E0q) mu;
                   Em = map row_min Ef;
                   idx = np_unique (map row_argmin Ef);
                   tqs = map (\<lambda>i. valence ! i) idx;
                   eqs = map (\<lambda>i. E0q ! i) idx
               in if mu = [] then Inl IndexError
                  else Inr \<lparr> miu = mu, Efmin = Em, Eform = Ef, tq = tqs, eq = eqs,
                             printed = transitions tqs eqs \<rparr>)"

section \<open>The command line (\<open>cli.py\<close>, \<open>cmd\<close>)\<close>

text \<open>
  The branch \<open>args.task == 'equi'\<close>. The trial Fermi levels: the list \<open>--fermi\<close>, or
  \<open>npoints + 1\<close> levels from \<open>emin\<close> in steps of \<open>(emax - emin) / npoints\<close>.
\<close>

definition equi_fermi :: "real list \<Rightarrow> real \<Rightarrow> real \<Rightarrow> int \<Rightarrow> real list" where
  "equi_fermi fermi E0 E1 N =
     (if N = 0 then fermi
      else let dE = (E1 - E0) / real_of_int N
           in map (\<lambda>i. E0 + real i * dE) [0..<nat (N + 1)])"

text \<open>
  \<open>data[:,4:] /= data[:,3:4]\<close> on a two-dimensional array of floats, given by its rows:
  in every row the columns from the fifth on are divided by the fourth. A row with at
  most four columns has no column to divide and is left as it is.
\<close>

definition ratio_normalize :: "pyfloat list list \<Rightarrow> pyfloat list list" where
  "ratio_normalize data =
     map (\<lambda>row. take 4 row @ map (\<lambda>x. fl_div x (row ! 3)) (drop 4 row)) data"

text \<open>
  \<open>disp\<close>: the header, if there is one, and one printed row \<open>(Ef, q_eff, H_eff, Nq)\<close> for
  every row of the table; \<open>Ef, q_eff, H_eff, *Nq = dd\<close> raises \<open>ValueError\<close> on a row with
  fewer than three columns. Of the printed text the numbers are kept, not their layout.
\<close>

fun disp_row :: "pyfloat list \<Rightarrow> error + (pyfloat \<times> pyfloat \<times> pyfloat \<times> pyfloat list)" where
  "disp_row (Ef # q_eff # H_eff # Nq) = Inr (Ef, q_eff, H_eff, Nq)"
| "disp_row _ = Inl ValueError"

fun disp_rows ::
  "pyfloat list list \<Rightarrow> error + (pyfloat \<times> pyfloat \<times> pyfloat \<times> pyfloat list) list" where
  "disp_rows [] = Inr []"
| "disp_rows (dd # rest) =
     (case disp_row dd of Inl e \<Rightarrow> Inl e
      | Inr r \<Rightarrow> (case disp_rows rest of Inl e \<Rightarrow> Inl e | Inr rs \<Rightarrow> Inr (r # rs)))"

definition disp ::
  "pyfloat list list \<Rightarrow> string option \<Rightarrow>
     error + (string option \<times> (pyfloat \<times> pyfloat \<times> pyfloat \<times> pyfloat list) list)" where
  "disp data header =
     (case disp_rows data of Inl e \<Rightarrow> Inl e | Inr rs \<Rightarrow> Inr (header, rs))"

text \<open>
  The branch from \<open>header, data = out\<close> on, for the value \<open>out\<close> that \<open>equ_defect\<close> returned:
  \<open>if is_detail and args.ratio: data[:,4:] /= data[:,3:4]\<close>, then \<open>disp(data)\<close> when quiet
  and \<open>disp(data, header)\<close> otherwise.
\<close>

definition cmd_equi ::
  "bool \<Rightarrow> bool \<Rightarrow> bool \<Rightarrow> string \<times> pyfloat list list \<Rightarrow>
     error + (string option \<times> (pyfloat \<times> pyfloat \<times> pyfloat \<times> pyfloat list) list)" where
  "cmd_equi is_quiet is_detail ratio out =
     (case out of (header, data) \<Rightarrow>
        let data' = (if is_detail \<and> ratio then ratio_normalize data else data)
        in if is_quiet then disp data' None else disp data' (Some header))"

section \<open>The solver and the carrier model of \<open>fermi.py\<close>\<close>

text \<open>
  \<open>fermi.py\<close> (\<open>scfermi\<close>, \<open>scfermi_fz\<close>, \<open>equ_defect\<close>) is not among the sources at hand;
  the definitions of this section follow the specification.
\<close>

text \<open>
  Modelled from the spec: the fatal error kinds of section 7 (missing: \<open>fermi.py\<close>).
\<close>

datatype solver_error = NoBracketError | MalformedInputError

text \<open>
  Modelled from the spec: the bracketing root-finder of section 4.3 (missing:
  \<open>fermi.py\<close>). Bisection keeps an interval \<open>[lo, hi]\<close> on which the residual changes
  sign, stops when the interval is no wider than the tolerance, and otherwise when the
  iteration budget is used up. It returns the last interval and whether it converged.
\<close>

fun bisection :: "(real \<Rightarrow> real) \<Rightarrow> real \<Rightarrow> nat \<Rightarrow> real \<Rightarrow> real \<Rightarrow> (real \<times> real) \<times> bool" where
  "bisection R tol 0 lo hi = ((lo, hi), hi - lo \<le> tol)"
| "bisection R tol (Suc n) lo hi =
     (if hi - lo \<le> tol then ((lo, hi), True)
      else let mid = (lo + hi) / 2
           in if R lo * R mid \<le> 0 then bisection R tol n lo mid
              else bisection R tol n mid hi)"

text \<open>
  Modelled from the spec: what the solver returns (missing: \<open>fermi.py\<close>): the Fermi level
  and the flag of a \<open>ConvergenceWarning\<close>.
\<close>

record solution =
  Ef_sol :: real
  ConvergenceWarning :: bool

text \<open>
  Modelled from the spec: \<open>solve\<close> of section 4.3 (missing: \<open>fermi.py\<close>), with the
  charge-neutrality residual \<open>R\<close>, the tolerance and the iteration budget as parameters.
  \<open>R(Emin)\<close> and \<open>R(Emax)\<close> must have opposite signs; if not, it fails with
  \<open>NoBracketError\<close>. Otherwise it returns the best estimate, with a \<open>ConvergenceWarning\<close>
  when the budget ran out before the tolerance was reached.
\<close>

definition solve ::
  "(real \<Rightarrow> real) \<Rightarrow> real \<Rightarrow> real \<Rightarrow> real \<Rightarrow> nat \<Rightarrow> solver_error + solution" where
  "solve R Emin Emax tol max_iter =
     (if R Emin * R Emax < 0 then
        (case bisection R tol max_iter Emin Emax of
           ((lo, hi), converged) \<Rightarrow>
             Inr \<lparr> Ef_sol = (lo + hi) / 2, ConvergenceWarning = \<not> converged \<rparr>)
      else Inl NoBracketError)"

text \<open>
  Modelled from the spec: the physical constants of section 3 (missing: \<open>misc.py\<close>,
  \<open>fermi.py\<close>): the Boltzmann constant in eV/K and the number of cubic angstroms in a cubic
  centimetre.
\<close>

definition kB :: real where
  "kB = 8617333262 / 10 ^ 14"

definition A3_per_cm3 :: real where
  "A3_per_cm3 = 10 ^ 24"

text \<open>
  Modelled from the spec: the threshold on \<open>|x| / kT\<close> beyond which the occupation is
  saturated to 0 or 1 (missing: \<open>fermi.py\<close>; the specification names no value).
\<close>

definition exp_threshold :: real where
  "exp_threshold = 700"

text \<open>
  Modelled from the spec: the Fermi-Dirac occupation \<open>f(x, T) = 1 / (1 + exp(x / kT))\<close> of
  section 4.1 (missing: \<open>fermi.py\<close>), saturated to 0 or 1 beyond the threshold; for a
  temperature that is not positive it is the step function.
\<close>

definition fermi_dirac :: "real \<Rightarrow> real \<Rightarrow> real" where
  "fermi_dirac x T =
     (if T \<le> 0 then (if 0 < x then 0 else if x < 0 then 1 else 1 / 2)
      else let t = x / (kB * T)
           in if exp_threshold < t then 0
              else if t < - exp_threshold then 1
              else 1 / (1 + exp t))"

text \<open>
  Modelled from the spec: trapezoid integration over a tabulated grid of points
  \<open>(energy, value)\<close> (missing: \<open>fermi.py\<close>).
\<close>

fun trapezoid :: "(real \<times> real) list \<Rightarrow> real" where
  "trapezoid [] = 0"
| "trapezoid [p] = 0"
| "trapezoid ((x0, y0) # (x1, y1) # ps) =
     (x1 - x0) * (y0 + y1) / 2 + trapezoid ((x1, y1) # ps)"

text \<open>
  Modelled from the spec: \<open>carrier_concentrations\<close> of section 4.1 (missing: \<open>fermi.py\<close>).
  The electron concentration integrates \<open>dos(E) * f(E - Ef, T)\<close> over the energies from the
  conduction onset \<open>Ec\<close> on, the hole concentration integrates \<open>dos(E) * (1 - f(E - Ef, T))\<close>
  over the energies up to the valence onset \<open>Ev\<close>; the integrals are divided by the volume
  and converted to cm^-3. The specification names the two onsets without saying where
  they come from; they are parameters here.
\<close>

definition carrier_concentrations ::
  "(real \<times> real) list \<Rightarrow> real \<Rightarrow> real \<Rightarrow> real \<Rightarrow> real \<Rightarrow> real \<Rightarrow> real \<times> real" where
  "carrier_concentrations dos Ev Ec Ef T volume =
     (let n_electron =
            trapezoid (map (\<lambda>(E, d). (E, d * fermi_dirac (E - Ef) T))
                           (filter (\<lambda>(E, d). Ec \<le> E) dos));
          n_hole =
            trapezoid (map (\<lambda>(E, d). (E, d * (1 - fermi_dirac (E - Ef) T)))
                           (filter (\<lambda>(E, d). E \<le> Ev) dos))
      in (n_electron / volume * A3_per_cm3, n_hole / volume * A3_per_cm3))"

text \<open>
  Modelled from the spec: the invariant of a DOS table of section 3 (missing: \<open>fermi.py\<close>):
  strictly increasing energies, no negative density.
\<close>

definition valid_dos :: "(real \<times> real) list \<Rightarrow> bool" where
  "valid_dos dos \<longleftrightarrow> sorted_wrt (<) (map fst dos) \<and> (\<forall>p \<in> set dos. 0 \<le> snd p)"

section \<open>Text: splitting, numbers, formatting\<close>

text \<open>
  Files are ASCII text. \<open>is_space\<close> holds of the characters that \<open>str.split()\<close> and
  \<open>str.strip()\<close> treat as whitespace.
\<close>

definition is_space :: "char \<Rightarrow> bool" where
  "is_space c \<longleftrightarrow> c \<in> {CHR '' '', CHR 0x09, CHR 0x0A, CHR 0x0B, CHR 0x0C, CHR 0x0D,
                          CHR 0x1C, CHR 0x1D, CHR 0x1E, CHR 0x1F}"

text \<open>
  \<open>s.split()\<close>: the maximal runs of characters that are not whitespace. \<open>cur\<close> holds the
  characters of the current run, last one first.
\<close>

fun split_from :: "string \<Rightarrow> string \<Rightarrow> string list" where
  "split_from cur [] = (if cur = [] then [] else [rev cur])"
| "split_from cur (c # cs) =
     (if is_space c then (if cur = [] then split_from [] cs else rev cur # split_from [] cs)
      else split_from (c # cur) cs)"

definition py_split :: "string \<Rightarrow> string list" where
  "py_split s = split_from [] s"

text \<open>\<open>s.strip()\<close>.\<close>

definition py_strip :: "string \<Rightarrow> string" where
  "py_strip s = rev (dropWhile is_space (rev (dropWhile is_space s)))"

text \<open>Decimal digits.\<close>

definition is_digit :: "char \<Rightarrow> bool" where
  "is_digit c \<longleftrightarrow> c \<in> set ''0123456789''"

definition digit_val :: "char \<Rightarrow> nat" where
  "digit_val c = (if is_digit c then of_char c - of_char (CHR ''0'') else 0)"

definition digit_char :: "nat \<Rightarrow> char" where
  "digit_char n = ''0123456789'' ! (n mod 10)"

text \<open>The value of a string of digits, and the digits of a number.\<close>

definition digits_val :: "string \<Rightarrow> nat" where
  "digits_val s = foldl (\<lambda>n c. 10 * n + digit_val c) 0 s"

fun show_nat :: "nat \<Rightarrow> string" where
  "show_nat n = (if n < 10 then [digit_char n] else show_nat (n div 10) @ [digit_char (n mod 10)])"

declare show_nat.simps [simp del]


text \<open>An optional sign in front of a number: the sign and the rest of the string.\<close>

fun parse_sign :: "string \<Rightarrow> int \<times> string" where
  "parse_sign [] = (1, [])"
| "parse_sign (c # cs) =
     (if c = CHR ''-'' then (- 1, cs) else if c = CHR ''+'' then (1, cs) else (1, c # cs))"

text \<open>
  Digit-group underscores, as \<open>int\<close> and \<open>float\<close> of Python accept them: an underscore
  must stand between two digits. \<open>underscores_ok prev s\<close> checks the text \<open>s\<close> that follows the
  character \<open>prev\<close>; \<open>digit_groups\<close> gives the text without its underscores, or \<open>None\<close> when
  one of them is misplaced.
\<close>

fun underscores_ok :: "char \<Rightarrow> string \<Rightarrow> bool" where
  "underscores_ok prev [] = (prev \<noteq> CHR ''_'')"
| "underscores_ok prev (c # cs) =
     ((if c = CHR ''_'' then is_digit prev
       else if prev = CHR ''_'' then is_digit c else True)
      \<and> underscores_ok c cs)"

definition digit_groups :: "string \<Rightarrow> string option" where
  "digit_groups s =
     (if underscores_ok (CHR 0x00) s then Some (filter (\<lambda>c. c \<noteq> CHR ''_'') s) else None)"

text \<open>
  \<open>int(s)\<close>: surrounding whitespace, an optional sign, digits in groups. \<open>None\<close> stands
  for \<open>ValueError\<close>.
\<close>

definition py_int :: "string \<Rightarrow> int option" where
  "py_int s =
     (case digit_groups (py_strip s) of
        None \<Rightarrow> None
      | Some u \<Rightarrow>
          (case parse_sign u of (sg, d) \<Rightarrow>
             if d \<noteq> [] \<and> list_all is_digit d then Some (sg * int (digits_val d)) else None))"

text \<open>
  A decimal literal: an optional sign, digits with an optional point, an optional
  exponent.
\<close>

definition is_exp_mark :: "char \<Rightarrow> bool" where
  "is_exp_mark c \<longleftrightarrow> c = CHR ''e'' \<or> c = CHR ''E''"

definition parse_mantissa :: "string \<Rightarrow> real option" where
  "parse_mantissa m =
     (let ip = takeWhile (\<lambda>c. c \<noteq> CHR ''.'') m;
          fp = drop 1 (dropWhile (\<lambda>c. c \<noteq> CHR ''.'') m)
      in if list_all is_digit ip \<and> list_all is_digit fp \<and> (ip \<noteq> [] \<or> fp \<noteq> [])
         then Some (real (digits_val ip) + real (digits_val fp) / 10 ^ length fp)
         else None)"

definition parse_exponent :: "string \<Rightarrow> int option" where
  "parse_exponent ex =
     (if ex = [] then Some 0
      else case parse_sign (drop 1 ex) of (sg, d) \<Rightarrow>
        if d \<noteq> [] \<and> list_all is_digit d then Some (sg * int (digits_val d)) else None)"

definition decimal_literal :: "string \<Rightarrow> real option" where
  "decimal_literal s =
     (case parse_sign s of (sg, u) \<Rightarrow>
        (case parse_mantissa (takeWhile (\<lambda>c. \<not> is_exp_mark c) u) of
           None \<Rightarrow> None
         | Some m \<Rightarrow>
             (case parse_exponent (dropWhile (\<lambda>c. \<not> is_exp_mark c) u) of
                None \<Rightarrow> None
              | Some e \<Rightarrow>
                  Some (real_of_int sg * m *
                        (if 0 \<le> e then 10 ^ nat e else 1 / 10 ^ nat (- e))))))"

text \<open>
  The names of the values that are not numbers: an optional sign and \<open>inf\<close>, \<open>infinity\<close> or
  \<open>nan\<close>, in letters of either case.
\<close>

definition upper_of :: "char \<Rightarrow> char" where
  "upper_of c = (if c = CHR ''i'' then CHR ''I'' else if c = CHR ''n'' then CHR ''N''
     else if c = CHR ''f'' then CHR ''F'' else if c = CHR ''t'' then CHR ''T''
     else if c = CHR ''y'' then CHR ''Y'' else if c = CHR ''a'' then CHR ''A'' else c)"

definition is_name :: "string \<Rightarrow> string \<Rightarrow> bool" where
  "is_name s name \<longleftrightarrow> list_all2 (\<lambda>c n. c = n \<or> c = upper_of n) s name"

definition inf_or_nan :: "string \<Rightarrow> pyfloat option" where
  "inf_or_nan s =
     (case parse_sign s of (sg, u) \<Rightarrow>
        if is_name u ''inf'' \<or> is_name u ''infinity'' then
          Some (if sg < 0 then NegInf else PosInf)
        else if is_name u ''nan'' then Some NaN
        else None)"

text \<open>
  The conversion of a text to a float that \<open>float\<close> of Python and the reader of
  \<open>np.loadtxt\<close> share: a decimal literal, or else one of the names.
\<close>

definition float_literal :: "string \<Rightarrow> pyfloat option" where
  "float_literal s =
     (case decimal_literal s of Some x \<Rightarrow> Some (Finite x) | None \<Rightarrow> inf_or_nan s)"

text \<open>
  \<open>float(s)\<close>: surrounding whitespace is dropped, digits may stand in groups. \<open>None\<close>
  stands for \<open>ValueError\<close>.
\<close>

definition py_float :: "string \<Rightarrow> pyfloat option" where
  "py_float s =
     (case digit_groups (py_strip s) of None \<Rightarrow> None | Some u \<Rightarrow> float_literal u)"

text \<open>
  The conversion of one field by \<open>np.loadtxt\<close> (NumPy 1.23 and later): like \<open>float\<close>, but
  without digit groups.
\<close>

definition np_float :: "string \<Rightarrow> pyfloat option" where
  "np_float s = float_literal (py_strip s)"

text \<open>
  Rounding to the nearest integer, a tie to the even one, as the conversion \<open>%.4f\<close>
  rounds the last digit.
\<close>

definition round_half_even :: "real \<Rightarrow> int" where
  "round_half_even r =
     (let f = \<lfloor>r\<rfloor>; d = r - real_of_int f
      in if d < 1 / 2 then f else if 1 / 2 < d then f + 1
         else if even f then f else f + 1)"

text \<open>
  \<open>'%.4f' % x\<close>: the sign of a negative number, the integer part, a point and four
  decimals.
\<close>

definition pad4 :: "nat \<Rightarrow> string" where
  "pad4 k = replicate (4 - length (show_nat k)) (CHR ''0'') @ show_nat k"

definition fmt_4f :: "real \<Rightarrow> string" where
  "fmt_4f x =
     (let n = nat (round_half_even (\<bar>x\<bar> * 10 ^ 4))
      in (if x < 0 then [CHR ''-''] else []) @
         show_nat (n div 10 ^ 4) @ [CHR ''.''] @ pad4 (n mod 10 ^ 4))"

text \<open>The number that \<open>fmt_4f x\<close> denotes.\<close>

definition round4 :: "real \<Rightarrow> real" where
  "round4 x =
     (if x < 0 then - 1 else 1) * real (nat (round_half_even (\<bar>x\<bar> * 10 ^ 4))) / 10 ^ 4"

text \<open>\<open>'{:>12.4f}'.format(x)\<close>: the same digits, right-aligned in a field of width 12.\<close>

definition fmt_12_4f :: "real \<Rightarrow> string" where
  "fmt_12_4f x = replicate (12 - length (fmt_4f x)) (CHR '' '') @ fmt_4f x"

text \<open>\<open>'{:+d}'.format(q)\<close>: the sign, always, and the digits.\<close>

definition fmt_plus_d :: "int \<Rightarrow> string" where
  "fmt_plus_d q = (if q < 0 then [CHR ''-''] else [CHR ''+'']) @ show_nat (nat \<bar>q\<bar>)"

text \<open>\<open>sep.join(ts)\<close>.\<close>

fun join :: "string \<Rightarrow> string list \<Rightarrow> string" where
  "join sep [] = []"
| "join sep [t] = t"
| "join sep (t # u # ts) = t @ sep @ join sep (u # ts)"

section \<open>Data files (\<open>defect.py\<close>, \<open>dft.py\<close>)\<close>

text \<open>
  A text file is the list of its lines, as \<open>readlines()\<close> gives them: every line with
  its newline character.
\<close>

definition newline :: char where
  "newline = CHR 0x0A"

text \<open>
  The header of a data file, as \<open>read_formation\<close> and \<open>read_H0\<close> read it:
  \<open>header = f.readline()\<close>, \<open>*_, volume, gx = header.strip().split()\<close>, and both converted
  with \<open>float\<close>. The unpacking raises \<open>ValueError\<close> on fewer than two fields.
\<close>

definition read_header :: "string list \<Rightarrow> error + (pyfloat \<times> pyfloat)" where
  "read_header lines =
     (let header = (case lines of [] \<Rightarrow> [] | l # _ \<Rightarrow> l);
          toks = py_split (py_strip header)
      in if length toks < 2 then Inl ValueError
         else case py_float (toks ! (length toks - 2)) of
                None \<Rightarrow> Inl ValueError
              | Some volume \<Rightarrow>
                  (case py_float (last toks) of
                     None \<Rightarrow> Inl ValueError
                   | Some gx \<Rightarrow> Inr (volume, gx)))"

subsection \<open>\<open>np.loadtxt\<close> and \<open>np.savetxt\<close>\<close>

text \<open>
  \<open>np.loadtxt\<close> drops from every line the comment that starts at \<open>#\<close>, splits what is
  left at whitespace and skips the lines on which nothing is left.
\<close>

definition strip_comment :: "string \<Rightarrow> string" where
  "strip_comment l = takeWhile (\<lambda>c. c \<noteq> CHR ''#'') l"

definition loadtxt_fields :: "string list \<Rightarrow> string list list" where
  "loadtxt_fields lines = filter (\<lambda>r. r \<noteq> []) (map (\<lambda>l. py_split (strip_comment l)) lines)"

text \<open>
  The conversion of the fields of a row, and of the rows of a table, with the conversion
  \<open>conv\<close> of one field: the first field that is refused raises \<open>ValueError\<close>.
\<close>

fun parse_floats :: "(string \<Rightarrow> pyfloat option) \<Rightarrow> string list \<Rightarrow> error + pyfloat list" where
  "parse_floats conv [] = Inr []"
| "parse_floats conv (t # ts) =
     (case conv t of
        None \<Rightarrow> Inl ValueError
      | Some x \<Rightarrow> (case parse_floats conv ts of Inl e \<Rightarrow> Inl e | Inr xs \<Rightarrow> Inr (x # xs)))"

fun parse_rows ::
  "(string \<Rightarrow> pyfloat option) \<Rightarrow> string list list \<Rightarrow> error + pyfloat list list" where
  "parse_rows conv [] = Inr []"
| "parse_rows conv (r # rs) =
     (case parse_floats conv r of
        Inl e \<Rightarrow> Inl e
      | Inr xs \<Rightarrow> (case parse_rows conv rs of Inl e \<Rightarrow> Inl e | Inr xss \<Rightarrow> Inr (xs # xss)))"

text \<open>
  \<open>np.loadtxt(filename, usecols=cols)\<close>: of every row only the columns \<open>cols\<close> are
  converted; a row that lacks one of them raises \<open>ValueError\<close>. The result is given by its
  rows.
\<close>

definition loadtxt_usecols :: "nat list \<Rightarrow> string list \<Rightarrow> error + pyfloat list list" where
  "loadtxt_usecols cols lines =
     (let rows = loadtxt_fields lines
      in if \<exists>r \<in> set rows. \<exists>c \<in> set cols. length r \<le> c then Inl ValueError
         else parse_rows np_float (map (\<lambda>r. map (\<lambda>c. r ! c) cols) rows))"

text \<open>
  An array as \<open>np.loadtxt(filename)\<close> returns it: with the default \<open>ndmin=0\<close> the axes of
  length one are squeezed, so that a table with one column or with one row comes back
  one-dimensional, and a single number without any dimension.
\<close>

datatype ndarray = Array0 pyfloat | Array1 "pyfloat list" | Array2 "pyfloat list list"

definition squeeze :: "pyfloat list list \<Rightarrow> ndarray" where
  "squeeze rows =
     (case rows of
        [] \<Rightarrow> Array1 []
      | [r] \<Rightarrow> (case r of [x] \<Rightarrow> Array0 x | _ \<Rightarrow> Array1 r)
      | r # _ # _ \<Rightarrow> if length r = 1 then Array1 (map hd rows) else Array2 rows)"

text \<open>\<open>np.loadtxt(filename)\<close>: all rows must have the same number of columns.\<close>

definition loadtxt :: "string list \<Rightarrow> error + ndarray" where
  "loadtxt lines =
     (let rows = loadtxt_fields lines
      in if \<exists>r \<in> set rows. length r \<noteq> length (hd rows) then Inl ValueError
         else case parse_rows np_float rows of Inl e \<Rightarrow> Inl e | Inr xss \<Rightarrow> Inr (squeeze xss))"

text \<open>
  \<open>np.savetxt(filename, X, fmt='%.4f', header=header)\<close>: the header as a comment line,
  then every row of \<open>X\<close> with its entries formatted and separated by one blank.
\<close>

definition savetxt :: "string \<Rightarrow> real list list \<Rightarrow> string list" where
  "savetxt header X =
     (''# '' @ header @ [newline]) # map (\<lambda>row. join '' '' (map fmt_4f row) @ [newline]) X"

subsection \<open>The data file of \<open>formation\<close>\<close>

text \<open>
  \<open>dsp = 'Ef, Eformation' + ', q_{:+d}' * len(ipt.valence)\<close>,
  \<open>header = dsp.format(*ipt.valence)\<close>, \<open>header += '; {:>12.4f}    1'.format(Volume)\<close>.
\<close>

definition formation_header :: "int list \<Rightarrow> real \<Rightarrow> string" where
  "formation_header valence Volume =
     ''Ef, Eformation'' @ concat (map (\<lambda>q. '', q_'' @ fmt_plus_d q) valence) @
     ''; '' @ fmt_12_4f Volume @ ''    1''"

text \<open>\<open>np.hstack([miu, Efmin, Eform])\<close>: row \<open>i\<close> is \<open>miu[i]\<close>, \<open>Efmin[i]\<close> and the row \<open>Eform[i]\<close>.\<close>

definition hstack3 :: "real list \<Rightarrow> real list \<Rightarrow> real list list \<Rightarrow> real list list" where
  "hstack3 ms es fs = map (\<lambda>(m, e, f). m # e # f) (zip ms (zip es fs))"

definition formation_file :: "int list \<Rightarrow> real \<Rightarrow> formation_out \<Rightarrow> string list" where
  "formation_file valence Volume out =
     savetxt (formation_header valence Volume) (hstack3 (miu out) (Efmin out) (Eform out))"

text \<open>\<open>formation\<close>, from the calculation on: what it prints and the data file it writes.\<close>

definition formation ::
  "int list \<Rightarrow> real list \<Rightarrow> real \<Rightarrow> real \<Rightarrow> real \<Rightarrow> int \<Rightarrow> error + (formation_out \<times> string list)" where
  "formation valence E0q Volume emin emax npts =
     (case formation_calc valence E0q emin emax npts of
        Inl e \<Rightarrow> Inl e
      | Inr out \<Rightarrow> Inr (out, formation_file valence Volume out))"

subsection \<open>\<open>read_formation\<close>\<close>

text \<open>The index of the first occurrence, as \<open>np.unique(..., return_index=True)\<close> reports it.\<close>

fun first_index :: "pyfloat list \<Rightarrow> pyfloat \<Rightarrow> nat" where
  "first_index [] x = 0"
| "first_index (y # ys) x = (if y = x then 0 else Suc (first_index ys x))"

text \<open>
  \<open>read_formation(filename, to_reduce)\<close>. The three columns are given as lists. With one
  data row \<open>np.loadtxt\<close> yields numbers instead of arrays, and the indexing of the
  \<open>to_reduce\<close> branch raises \<open>IndexError\<close>.
\<close>

definition read_formation ::
  "string list \<Rightarrow> bool \<Rightarrow>
     error + ((pyfloat list \<times> pyfloat list \<times> pyfloat list) \<times> pyfloat \<times> pyfloat)" where
  "read_formation lines to_reduce =
     (case read_header lines of
        Inl e \<Rightarrow> Inl e
      | Inr (volume, gx) \<Rightarrow>
          (case loadtxt_usecols [0, 1, 2] lines of
             Inl e \<Rightarrow> Inl e
           | Inr rows \<Rightarrow>
               let Efermi = map (\<lambda>r. r ! 0) rows;
                   energy = map (\<lambda>r. r ! 1) rows;
                   charge = map (\<lambda>r. r ! 2) rows
               in if to_reduce then
                    (if length rows = 1 then Inl IndexError
                     else let charge' = fl_sort (remdups charge);
                              index = map (first_index charge) charge'
                          in Inr ((map (\<lambda>i. Efermi ! i) index, map (\<lambda>i. energy ! i) index,
                                   charge'), volume, gx))
                  else Inr ((Efermi, energy, charge), volume, gx)))"

subsection \<open>\<open>read_H0\<close>\<close>

text \<open>\<open>data.shape[-1]\<close>; an array without dimensions has an empty shape.\<close>

fun shape_last :: "ndarray \<Rightarrow> error + nat" where
  "shape_last (Array0 x) = Inl IndexError"
| "shape_last (Array1 xs) = Inr (length xs)"
| "shape_last (Array2 rows) = Inr (length (hd rows))"

text \<open>
  \<open>np.pad(data, ((0, 0), (0, 1)), constant_values=gx)\<close>: one more column, filled with
  \<open>gx\<close>. The two pairs of widths fit a two-dimensional array only.
\<close>

fun pad_column :: "ndarray \<Rightarrow> pyfloat \<Rightarrow> error + ndarray" where
  "pad_column (Array2 rows) gx = Inr (Array2 (map (\<lambda>r. r @ [gx]) rows))"
| "pad_column _ gx = Inl ValueError"

text \<open>\<open>data[:, :3]\<close>: two indices need a two-dimensional array.\<close>

fun first3 :: "ndarray \<Rightarrow> error + ndarray" where
  "first3 (Array2 rows) = Inr (Array2 (map (take 3) rows))"
| "first3 _ = Inl IndexError"

definition read_H0 :: "string list \<Rightarrow> error + (ndarray \<times> pyfloat)" where
  "read_H0 lines =
     (case read_header lines of
        Inl e \<Rightarrow> Inl e
      | Inr (volume, gx) \<Rightarrow>
          (case loadtxt lines of
             Inl e \<Rightarrow> Inl e
           | Inr data \<Rightarrow>
               (case shape_last data of
                  Inl e \<Rightarrow> Inl e
                | Inr n \<Rightarrow>
                    if n = 3 then Inr (data, volume)
                    else if n = 2 then
                      (case pad_column data gx of Inl e \<Rightarrow> Inl e | Inr d \<Rightarrow> Inr (d, volume))
                    else if n < 2 then
                      Inl (RuntimeError ''Charge and H0 columns must be included.'')
                    else (case first3 data of Inl e \<Rightarrow> Inl e | Inr d \<Rightarrow> Inr (d, volume)))))"

subsection \<open>\<open>read_dos\<close>\<close>

text \<open>\<open>xs[i:j]\<close> for \<open>0 \<le> i\<close>; a negative \<open>j\<close> counts from the end.\<close>

definition py_slice :: "'a list \<Rightarrow> nat \<Rightarrow> int \<Rightarrow> 'a list" where
  "py_slice xs i j =
     (let n = int (length xs);
          j' = (if j < 0 then max (j + n) 0 else min j n)
      in take (nat j' - i) (drop i xs))"

text \<open>
  \<open>_read_dos(data, fermi)\<close>: every line that does not start with \<open>#\<close> is split, all its
  fields are converted with \<open>float\<close>, the first one less \<open>fermi\<close> is an energy and the
  second one a density.
\<close>

fun read_dos_rows :: "string list \<Rightarrow> pyfloat \<Rightarrow> error + (pyfloat list \<times> pyfloat list)" where
  "read_dos_rows [] fermi = Inr ([], [])"
| "read_dos_rows (l # rest) fermi =
     (if take 1 l = ''#'' then read_dos_rows rest fermi
      else case parse_floats py_float (py_split (py_strip l)) of
             Inl e \<Rightarrow> Inl e
           | Inr data \<Rightarrow>
               if length data < 2 then Inl IndexError
               else (case read_dos_rows rest fermi of
                       Inl e \<Rightarrow> Inl e
                     | Inr (energy, dos) \<Rightarrow>
                         Inr (fl_sub (data ! 0) fermi # energy, (data ! 1) # dos)))"

text \<open>
  The first part of \<open>read_dos\<close>: the lines \<open>data_select\<close> that hold the table. The test
  for a DOSCAR reads the numbers of fields of the first, third and fourth line; \<open>num_i[2]\<close>
  and \<open>num_i[3]\<close> raise \<open>IndexError\<close> on a file of fewer than four lines. In a DOSCAR the
  third field of the sixth line is \<open>NEDOS\<close>, and the table is \<open>data[6:6+NEDOS]\<close>.
\<close>

definition data_select :: "string list \<Rightarrow> error + string list" where
  "data_select data =
     (let num_i = map (\<lambda>l. length (py_split (py_strip l))) (take 6 data)
      in if length num_i < 4 then Inl IndexError
         else let isDOSCAR = (num_i ! 0 = 4 \<and> num_i ! 2 = 1 \<and> num_i ! 3 = 1)
              in if isDOSCAR then
                   (if length data < 6 then Inl IndexError
                    else let toks = py_split (py_strip (data ! 5))
                         in if length toks < 3 then Inl IndexError
                            else case py_int (toks ! 2) of
                                   None \<Rightarrow> Inl ValueError
                                 | Some NEDOS \<Rightarrow> Inr (py_slice data 6 (6 + NEDOS)))
                 else Inr data)"

text \<open>\<open>read_dos(doscar, efermi)\<close>.\<close>

definition read_dos :: "string list \<Rightarrow> pyfloat \<Rightarrow> error + (pyfloat list \<times> pyfloat list)" where
  "read_dos data efermi =
     (case data_select data of
        Inl e \<Rightarrow> Inl e
      | Inr sel \<Rightarrow> read_dos_rows sel efermi)"

text \<open>A field of a line: not empty and free of whitespace.\<close>

definition is_word :: "string \<Rightarrow> bool" where
  "is_word w \<longleftrightarrow> w \<noteq> [] \<and> (\<forall>c \<in> set w. \<not> is_space c)"

text \<open>
  The fields of the lines that \<open>_read_dos\<close> converts: those of the lines that do not start
  with \<open>#\<close>.
\<close>

definition dos_fields :: "string list \<Rightarrow> string list list" where
  "dos_fields sel = map (\<lambda>l. py_split (py_strip l)) (filter (\<lambda>l. take 1 l \<noteq> ''#'') sel)"

section \<open>Properties of the formation-energy calculation\<close>

lemma linspace_length:
  assumes "0 \<le> num" "linspace a b num = Inr ys"
  shows "length ys = nat num"
  using assms by (auto simp: linspace_def Let_def split: if_splits)

lemma linspace_nth:
  assumes "2 \<le> num" "linspace a b num = Inr ys" "i < nat num"
  shows "ys ! i = a + real i * ((b - a) / real (nat num - 1))"
proof -
  let ?n = "nat num"
  let ?step = "(b - a) / real (?n - 1)"
  from assms(1,2) have ys: "ys = (map (\<lambda>i. a + real i * ?step) [0..<?n])[?n - 1 := b]"
    by (auto simp: linspace_def Let_def split: if_splits)
  show ?thesis
  proof (cases "i = ?n - 1")
    case True
    have "real (?n - 1) \<noteq> 0" using assms(1) by auto
    then have "a + real (?n - 1) * ?step = b" by simp
    with True assms(3) show ?thesis unfolding ys by simp
  next
    case False
    with assms(3) show ?thesis unfolding ys by simp
  qed
qed

lemma row_min_Min: "xs \<noteq> [] \<Longrightarrow> row_min xs = Min (set xs)"
  by (induction xs rule: row_min.induct) (auto simp: min_def Min_insert2 intro: antisym)

lemma row_argmin_attains:
  "xs \<noteq> [] \<Longrightarrow> row_argmin xs < length xs \<and> xs ! row_argmin xs = row_min xs"
  by (induction xs rule: row_argmin.induct) (auto simp: min_def)

lemma Eform_row_lines:
  assumes "length q = length E0q"
  shows "Eform_row q E0q m = map (\<lambda>k. line (q ! k) (E0q ! k) m) [0..<length q]"
  using assms by (auto simp: Eform_row_def line_def intro!: nth_equalityI)

lemma formation_calc_Inr:
  assumes "formation_calc valence E0q emin emax npts = Inr out"
  shows "linspace emin emax npts = Inr (miu out)"
    and "length valence = length E0q" and "valence \<noteq> []" and "miu out \<noteq> []"
    and "Eform out = map (Eform_row valence E0q) (miu out)"
    and "Efmin out = map row_min (Eform out)"
    and "printed out = transitions (tq out) (eq out)"
  using assms by (auto simp: formation_calc_def Let_def split: sum.splits if_splits)

lemma formation_calc_returns:
  assumes "1 \<le> npts" "valence \<noteq> []" "length valence = length E0q"
  shows "\<exists>out. formation_calc valence E0q emin emax npts = Inr out"
proof -
  obtain mu where mu: "linspace emin emax npts = Inr mu"
    using assms(1) by (cases "npts = 1") (auto simp: linspace_def Let_def)
  with assms(1) have "length mu = nat npts" by (intro linspace_length) auto
  with assms(1) have "mu \<noteq> []" by auto
  with mu assms(2,3) show ?thesis by (simp add: formation_calc_def Let_def)
qed

text \<open>Two runs, evaluated: the charge states \<open>q = 0\<close> (\<open>E0 = 2\<close>) and \<open>q = +1\<close> (\<open>E0 = 1\<close>).\<close>

lemma formation_calc_run_0_2:
  "formation_calc [0, 1] [2, 1] 0 2 3 =
     Inr \<lparr>miu = [0, 1, 2], Efmin = [1, 2, 2], Eform = [[2, 1], [2, 2], [2, 3]],
          tq = [0, 1], eq = [2, 1], printed = [((0, 1), 1, 2)]\<rparr>"
  by (simp add: formation_calc_def linspace_def Eform_row_def np_unique_def transitions_def
      E_t_def E_d_def Let_def upt_rec)

lemma formation_calc_run_0_1:
  "formation_calc [0, 1] [2, 1] 0 1 3 =
     Inr \<lparr>miu = [0, 1 / 2, 1], Efmin = [1, 3 / 2, 2], Eform = [[2, 1], [2, 3 / 2], [2, 2]],
          tq = [0, 1], eq = [2, 1], printed = [((0, 1), 1, 2)]\<rparr>"
  by (simp add: formation_calc_def linspace_def Eform_row_def np_unique_def transitions_def
      E_t_def E_d_def Let_def upt_rec)

lemma E_t_E_d_line:
  assumes "q1 \<noteq> q2"
  shows "line q1 e1 (E_t q1 e1 q2 e2) = E_d q1 e1 q2 e2"
    and "line q2 e2 (E_t q1 e1 q2 e2) = E_d q1 e1 q2 e2"
    and "line q1 e1 Ef = line q2 e2 Ef \<Longrightarrow> Ef = E_t q1 e1 q2 e2"
  using assms by (simp_all add: line_def E_t_def E_d_def field_simps)

text \<open>
  Claim C10. For every line printed for two consecutive stable charge states \<open>(q1, e1)\<close>
  and \<open>(q2, e2)\<close> with \<open>q1 \<noteq> q2\<close>, the printed transition level is
  \<open>E_t = -(e2 - e1) / (q2 - q1)\<close> and the printed defect energy is
  \<open>E_d = (q2 * e1 - q1 * e2) / (q2 - q1)\<close>; \<open>E_t\<close> is the one Fermi level at which the lines
  \<open>e1 + q1 * Ef\<close> and \<open>e2 + q2 * Ef\<close> meet, and \<open>E_d\<close> is their common value there.
\<close>

theorem transition_level_is_intersection:
  assumes "formation_calc valence E0q emin emax npts = Inr out"
    and "((q1, q2), Et, Ed) \<in> set (printed out)"
    and "q1 \<noteq> q2"
  shows "\<exists>i. 0 < i \<and> i < length (tq out) \<and> q1 = tq out ! (i - 1) \<and> q2 = tq out ! i \<and>
           Et = E_t q1 (eq out ! (i - 1)) q2 (eq out ! i) \<and>
           Ed = E_d q1 (eq out ! (i - 1)) q2 (eq out ! i) \<and>
           line q1 (eq out ! (i - 1)) Et = Ed \<and>
           line q2 (eq out ! i) Et = Ed \<and>
           (\<forall>Ef. line q1 (eq out ! (i - 1)) Ef = line q2 (eq out ! i) Ef \<longrightarrow> Ef = Et)"
proof -
  have pr: "printed out = transitions (tq out) (eq out)"
    by (rule formation_calc_Inr(7) [OF assms(1)])
  from assms(2) obtain i where i: "i \<in> set (rev [1..<length (tq out)])"
    and q1: "q1 = tq out ! (i - 1)" and q2: "q2 = tq out ! i"
    and Et: "Et = E_t q1 (eq out ! (i - 1)) q2 (eq out ! i)"
    and Ed: "Ed = E_d q1 (eq out ! (i - 1)) q2 (eq out ! i)"
    unfolding pr transitions_def by auto
  from i have "0 < i" "i < length (tq out)" by auto
  moreover note q1 q2 Et Ed
  moreover have "line q1 (eq out ! (i - 1)) Et = Ed" "line q2 (eq out ! i) Et = Ed"
    "\<forall>Ef. line q1 (eq out ! (i - 1)) Ef = line q2 (eq out ! i) Ef \<longrightarrow> Ef = Et"
    unfolding Et Ed using E_t_E_d_line [OF assms(3)] by blast+
  ultimately show ?thesis by blast
qed

theorem transition_level_is_intersection_witness:
  "\<exists>out. formation_calc [0, 1] [2, 1] 0 2 3 = Inr out \<and>
     ((0, 1), 1, 2) \<in> set (printed out) \<and> (0::int) \<noteq> 1 \<and>
     (\<exists>i. 0 < i \<and> i < length (tq out) \<and> 0 = tq out ! (i - 1) \<and> 1 = tq out ! i \<and>
        1 = E_t 0 (eq out ! (i - 1)) 1 (eq out ! i) \<and>
        2 = E_d 0 (eq out ! (i - 1)) 1 (eq out ! i) \<and>
        line 0 (eq out ! (i - 1)) 1 = 2 \<and> line 1 (eq out ! i) 1 = 2 \<and>
        (\<forall>Ef. line 0 (eq out ! (i - 1)) Ef = line 1 (eq out ! i) Ef \<longrightarrow> Ef = 1))"
proof -
  let ?out = "\<lparr>miu = [0, 1, 2], Efmin = [1, 2, 2], Eform = [[2, 1], [2, 2], [2, 3]],
          tq = [0, 1], eq = [2, 1], printed = [((0, 1), 1, 2)]\<rparr>"
  have m: "((0, 1), 1, 2) \<in> set (printed ?out)" by simp
  have d: "(0::int) \<noteq> 1" by simp
  from transition_level_is_intersection [OF formation_calc_run_0_2 m d]
  show ?thesis using formation_calc_run_0_2 m d by blast
qed

section \<open>Properties of the command line\<close>

lemma disp_rows_Inr:
  assumes "\<forall>row \<in> set data. 3 \<le> length row"
  shows "disp_rows data = Inr (map (\<lambda>row. (row ! 0, row ! 1, row ! 2, drop 3 row)) data)"
  using assms
proof (induction data)
  case Nil
  then show ?case by simp
next
  case (Cons row data)
  then have "3 \<le> length row" by simp
  then obtain a b c rest where "row = a # b # c # rest"
    by (cases row; cases "tl row"; cases "tl (tl row)") auto
  with Cons show ?case by simp
qed

lemma disp_rows_Inl:
  assumes "\<not> (\<forall>row \<in> set data. 3 \<le> length row)"
  shows "disp_rows data = Inl ValueError"
  using assms
proof (induction data)
  case Nil
  then show ?case by simp
next
  case (Cons row data)
  show ?case
  proof (cases "3 \<le> length row")
    case True
    then obtain a b c rest where r: "row = a # b # c # rest"
      by (cases row; cases "tl row"; cases "tl (tl row)") auto
    from True Cons.prems have "\<not> (\<forall>row \<in> set data. 3 \<le> length row)" by simp
    from Cons.IH [OF this] r show ?thesis by simp
  next
    case False
    then have "disp_row row = Inl ValueError"
      by (cases row; cases "tl row"; cases "tl (tl row)") auto
    then show ?thesis by simp
  qed
qed

lemma ratio_normalize_row:
  assumes "3 \<le> length row"
  shows "(take 4 row @ map (\<lambda>x. fl_div x (row ! 3)) (drop 4 row)) ! 0 = row ! 0"
    and "(take 4 row @ map (\<lambda>x. fl_div x (row ! 3)) (drop 4 row)) ! 1 = row ! 1"
    and "(take 4 row @ map (\<lambda>x. fl_div x (row ! 3)) (drop 4 row)) ! 2 = row ! 2"
    and "drop 3 (take 4 row @ map (\<lambda>x. fl_div x (row ! 3)) (drop 4 row))
           = take 1 (drop 3 row) @ map (\<lambda>x. fl_div x (row ! 3)) (drop 4 row)"
proof -
  from assms obtain a b c rest where r: "row = a # b # c # rest"
    by (cases row; cases "tl row"; cases "tl (tl row)") auto
  show "(take 4 row @ map (\<lambda>x. fl_div x (row ! 3)) (drop 4 row)) ! 0 = row ! 0"
    "(take 4 row @ map (\<lambda>x. fl_div x (row ! 3)) (drop 4 row)) ! 1 = row ! 1"
    "(take 4 row @ map (\<lambda>x. fl_div x (row ! 3)) (drop 4 row)) ! 2 = row ! 2"
    unfolding r by (simp_all add: take_Cons' nth_Cons')
  show "drop 3 (take 4 row @ map (\<lambda>x. fl_div x (row ! 3)) (drop 4 row))
           = take 1 (drop 3 row) @ map (\<lambda>x. fl_div x (row ! 3)) (drop 4 row)"
    unfolding r by (cases rest) (simp_all add: take_Cons' drop_Cons')
qed

lemma ratio_normalize_lengths:
  "(\<forall>row \<in> set (ratio_normalize data). 3 \<le> length row) \<longleftrightarrow>
   (\<forall>row \<in> set data. 3 \<le> length row)"
  by (auto simp: ratio_normalize_def)

lemma ratio_normalize_narrow:
  assumes "\<forall>row \<in> set data. length row \<le> 4"
  shows "ratio_normalize data = data"
  using assms by (induction data) (simp_all add: ratio_normalize_def)

lemma disp_rows_ratio_normalize:
  assumes "\<forall>row \<in> set data. 3 \<le> length row"
  shows "disp_rows (ratio_normalize data)
           = Inr (map (\<lambda>row. (row ! 0, row ! 1, row ! 2,
                     take 1 (drop 3 row) @ map (\<lambda>x. fl_div x (row ! 3)) (drop 4 row))) data)"
proof -
  let ?N = "\<lambda>row. take 4 row @ map (\<lambda>x. fl_div x (row ! 3)) (drop 4 row)"
  have n: "\<forall>row \<in> set (ratio_normalize data). 3 \<le> length row"
    using assms ratio_normalize_lengths [of data] by blast
  have "map (\<lambda>row. (row ! 0, row ! 1, row ! 2, drop 3 row)) (ratio_normalize data)
      = map (\<lambda>row. (row ! 0, row ! 1, row ! 2,
                     take 1 (drop 3 row) @ map (\<lambda>x. fl_div x (row ! 3)) (drop 4 row))) data"
    unfolding ratio_normalize_def map_map comp_def
  proof (rule map_cong [OF refl])
    fix row assume "row \<in> set data"
    with assms have "3 \<le> length row" by simp
    from ratio_normalize_row [OF this]
    show "(?N row ! 0, ?N row ! 1, ?N row ! 2, drop 3 (?N row))
        = (row ! 0, row ! 1, row ! 2,
           take 1 (drop 3 row) @ map (\<lambda>x. fl_div x (row ! 3)) (drop 4 row))"
      by (simp only:)
  qed
  with disp_rows_Inr [OF n] show ?thesis by simp
qed

text \<open>
  Claim C8. The scan prints its table raw without \<open>--ratio\<close> and ratio-normalised with it.
  With \<open>--ratio\<close> in detail mode, the mode whose rows are \<open>(Ef, q_eff, H_eff, Ntot, Nq)\<close>,
  every printed row holds the Fermi level, the effective charge, the effective energy and
  the total of the scan row unchanged, followed by every later column divided by the
  total of its row, as floats divide (a zero total gives an infinity or NaN). Without
  \<open>--ratio\<close> every printed row is the scan row. This holds of every scan result whose rows
  have the three leading columns; a shorter row cannot be unpacked by \<open>disp\<close>, with or
  without \<open>--ratio\<close>. Without \<open>-v\<close> the branch does not divide: \<open>--ratio\<close> prints what is
  printed without it, and on rows that end with the total, as on the rows
  \<open>(Ef, q_eff, H_eff)\<close> of that mode, there is no column to divide.
\<close>

theorem equi_ratio_normalized:
  "cmd_equi is_quiet True True (header, data)
     = (if \<forall>row \<in> set data. 3 \<le> length row
        then Inr (if is_quiet then None else Some header,
                  map (\<lambda>row. (row ! 0, row ! 1, row ! 2,
                               take 1 (drop 3 row) @ map (\<lambda>x. fl_div x (row ! 3)) (drop 4 row)))
                      data)
        else Inl ValueError)
 \<and> cmd_equi is_quiet is_detail False (header, data)
     = (if \<forall>row \<in> set data. 3 \<le> length row
        then Inr (if is_quiet then None else Some header,
                  map (\<lambda>row. (row ! 0, row ! 1, row ! 2, drop 3 row)) data)
        else Inl ValueError)
 \<and> cmd_equi is_quiet False True (header, data) = cmd_equi is_quiet False False (header, data)
 \<and> ((\<forall>row \<in> set data. length row \<le> 4) \<longrightarrow>
      cmd_equi is_quiet is_detail True (header, data)
        = cmd_equi is_quiet is_detail False (header, data))"
proof (intro conjI impI)
  show "cmd_equi is_quiet True True (header, data)
     = (if \<forall>row \<in> set data. 3 \<le> length row
        then Inr (if is_quiet then None else Some header,
                  map (\<lambda>row. (row ! 0, row ! 1, row ! 2,
                               take 1 (drop 3 row) @ map (\<lambda>x. fl_div x (row ! 3)) (drop 4 row)))
                      data)
        else Inl ValueError)"
  proof (cases "\<forall>row \<in> set data. 3 \<le> length row")
    case True
    from disp_rows_ratio_normalize [OF True] True show ?thesis
      by (simp add: cmd_equi_def disp_def)
  next
    case False
    then have "\<not> (\<forall>row \<in> set (ratio_normalize data). 3 \<le> length row)"
      using ratio_normalize_lengths [of data] by blast
    from disp_rows_Inl [OF this] False show ?thesis
      by (simp add: cmd_equi_def disp_def)
  qed
next
  show "cmd_equi is_quiet is_detail False (header, data)
     = (if \<forall>row \<in> set data. 3 \<le> length row
        then Inr (if is_quiet then None else Some header,
                  map (\<lambda>row. (row ! 0, row ! 1, row ! 2, drop 3 row)) data)
        else Inl ValueError)"
  proof (cases "\<forall>row \<in> set data. 3 \<le> length row")
    case True
    from disp_rows_Inr [OF True] True show ?thesis by (simp add: cmd_equi_def disp_def)
  next
    case False
    from disp_rows_Inl [OF False] False show ?thesis by (simp add: cmd_equi_def disp_def)
  qed
next
  show "cmd_equi is_quiet False True (header, data)
           = cmd_equi is_quiet False False (header, data)"
    by (simp add: cmd_equi_def)
next
  assume "\<forall>row \<in> set data. length row \<le> 4"
  then show "cmd_equi is_quiet is_detail True (header, data)
              = cmd_equi is_quiet is_detail False (header, data)"
    by (simp add: cmd_equi_def ratio_normalize_narrow)
qed

theorem equi_ratio_normalized_witness:
  "list_all (\<lambda>row. 3 \<le> length row)
     [[Finite 0, Finite 1, Finite 2, Finite 4, Finite 2, Finite 6],
      [Finite 1, Finite 0, Finite 3, Finite 0, Finite 5, Finite 0]]
 \<and> cmd_equi False True True
     (''header'', [[Finite 0, Finite 1, Finite 2, Finite 4, Finite 2, Finite 6],
                   [Finite 1, Finite 0, Finite 3, Finite 0, Finite 5, Finite 0]])
     = Inr (Some ''header'',
            [(Finite 0, Finite 1, Finite 2, [Finite 4, Finite (1 / 2), Finite (3 / 2)]),
             (Finite 1, Finite 0, Finite 3, [Finite 0, PosInf, NaN])])
 \<and> cmd_equi True True False
     (''header'', [[Finite 0, Finite 1, Finite 2, Finite 4, Finite 2, Finite 6],
                   [Finite 1, Finite 0, Finite 3, Finite 0, Finite 5, Finite 0]])
     = Inr (None,
            [(Finite 0, Finite 1, Finite 2, [Finite 4, Finite 2, Finite 6]),
             (Finite 1, Finite 0, Finite 3, [Finite 0, Finite 5, Finite 0])])
 \<and> list_all (\<lambda>row. length row \<le> 4) [[Finite 0, Finite 1, Finite 2]]
 \<and> cmd_equi False False True (''header'', [[Finite 0, Finite 1, Finite 2]])
     = Inr (Some ''header'', [(Finite 0, Finite 1, Finite 2, [])])
 \<and> cmd_equi False True True (''header'', [[Finite 0, Finite 1]]) = Inl ValueError"
proof -
  let ?data = "[[Finite 0, Finite 1, Finite 2, Finite 4, Finite 2, Finite 6],
                [Finite 1, Finite 0, Finite 3, Finite 0, Finite 5, Finite 0]]"
  let ?narrow = "[[Finite 0, Finite 1, Finite 2]]"
  let ?short = "[[Finite 0, Finite 1]]"
  have h: "\<forall>row \<in> set ?data. 3 \<le> length row" "\<forall>row \<in> set ?narrow. 3 \<le> length row"
    "\<forall>row \<in> set ?narrow. length row \<le> 4" "\<not> (\<forall>row \<in> set ?short. 3 \<le> length row)"
    by simp_all
  note t1 = equi_ratio_normalized [of False "''header''" ?data]
  note t2 = equi_ratio_normalized [of True "''header''" ?data True]
  note t3 = equi_ratio_normalized [of False "''header''" ?narrow False]
  note t4 = equi_ratio_normalized [of False "''header''" ?short]
  from t1 h(1) have a: "cmd_equi False True True (''header'', ?data)
     = Inr (Some ''header'',
            [(Finite 0, Finite 1, Finite 2, [Finite 4, Finite (1 / 2), Finite (3 / 2)]),
             (Finite 1, Finite 0, Finite 3, [Finite 0, PosInf, NaN])])" by simp
  from t2 h(1) have b: "cmd_equi True True False (''header'', ?data)
     = Inr (None,
            [(Finite 0, Finite 1, Finite 2, [Finite 4, Finite 2, Finite 6]),
             (Finite 1, Finite 0, Finite 3, [Finite 0, Finite 5, Finite 0])])" by simp
  from t3 h(2,3) have c: "cmd_equi False False True (''header'', ?narrow)
     = Inr (Some ''header'', [(Finite 0, Finite 1, Finite 2, [])])" by simp
  from t4 h(4) have d: "cmd_equi False True True (''header'', ?short) = Inl ValueError"
    by simp
  from a b c d show ?thesis by simp
qed

section \<open>Properties of the solver and the carrier model\<close>

lemma bisection_bracket:
  assumes "lo \<le> hi" "R lo * R hi \<le> 0" "bisection R tol n lo hi = ((a, b), c)"
  shows "lo \<le> a \<and> a \<le> b \<and> b \<le> hi \<and> R a * R b \<le> 0 \<and> (c \<longrightarrow> b - a \<le> tol)"
  using assms
proof (induction R tol n lo hi rule: bisection.induct)
  case (1 R tol lo hi)
  then show ?case by auto
next
  case (2 R tol n lo hi)
  show ?case
  proof (cases "hi - lo \<le> tol")
    case True
    with 2 show ?thesis by auto
  next
    case False
    let ?mid = "(lo + hi) / 2"
    have m: "lo \<le> ?mid" "?mid \<le> hi" using "2.prems"(1) by auto
    show ?thesis
    proof (cases "R lo * R ?mid \<le> 0")
      case True
      with False "2.prems"(3) have "bisection R tol n lo ?mid = ((a, b), c)" by (simp add: Let_def)
      from "2.IH"(1) [OF False refl True m(1) True this] m show ?thesis by auto
    next
      case F2: False
      with False "2.prems"(3) have b: "bisection R tol n ?mid hi = ((a, b), c)" by (simp add: Let_def)
      have "R ?mid * R hi \<le> 0"
      proof (rule ccontr)
        assume "\<not> R ?mid * R hi \<le> 0"
        then have p1: "0 < R ?mid * R hi" by simp
        from F2 have p2: "0 < R lo * R ?mid" by simp
        have "0 < (R lo * R ?mid) * (R ?mid * R hi)" by (rule mult_pos_pos [OF p2 p1])
        then have "0 < (R lo * R hi) * (R ?mid * R ?mid)" by (simp add: mult_ac)
        moreover have "0 \<le> R ?mid * R ?mid" by simp
        ultimately have "0 < R lo * R hi" by (simp add: zero_less_mult_iff)
        with "2.prems"(2) show False by simp
      qed
      from "2.IH"(2) [OF False refl F2 m(2) this b] m show ?thesis by auto
    qed
  qed
qed

text \<open>
  Claim C2. Whenever the residual has the same sign at \<open>Emin\<close> and at \<open>Emax\<close>, the solver
  fails with \<open>NoBracketError\<close> and returns no Fermi level; it fails so exactly when the two
  values do not have opposite signs. When they have opposite signs it returns a result of
  bisection over \<open>[Emin, Emax]\<close>: the midpoint of an interval \<open>[lo, hi]\<close> inside
  \<open>[Emin, Emax]\<close> on which the residual changes sign, no wider than the tolerance unless a
  \<open>ConvergenceWarning\<close> is signalled.
\<close>

theorem solve_requires_bracket:
  "(sgn (R Emin) = sgn (R Emax) \<longrightarrow> solve R Emin Emax tol max_iter = Inl NoBracketError)
 \<and> (solve R Emin Emax tol max_iter = Inl NoBracketError \<longleftrightarrow> \<not> R Emin * R Emax < 0)
 \<and> (R Emin * R Emax < 0 \<and> Emin \<le> Emax \<longrightarrow>
      (\<exists>s lo hi. solve R Emin Emax tol max_iter = Inr s \<and>
         Emin \<le> lo \<and> lo \<le> Ef_sol s \<and> Ef_sol s \<le> hi \<and> hi \<le> Emax \<and>
         R lo * R hi \<le> 0 \<and> Ef_sol s = (lo + hi) / 2 \<and>
         (\<not> ConvergenceWarning s \<longrightarrow> hi - lo \<le> tol)))"
proof (intro conjI impI)
  assume "sgn (R Emin) = sgn (R Emax)"
  then have "\<not> R Emin * R Emax < 0"
    by (metis mult_less_0_iff not_less_iff_gr_or_eq sgn_neg sgn_pos sgn_zero_iff sgn_less sgn_greater)
  then show "solve R Emin Emax tol max_iter = Inl NoBracketError" by (simp add: solve_def)
next
  show "solve R Emin Emax tol max_iter = Inl NoBracketError \<longleftrightarrow> \<not> R Emin * R Emax < 0"
    by (auto simp: solve_def split: prod.splits)
next
  assume h: "R Emin * R Emax < 0 \<and> Emin \<le> Emax"
  obtain a b c where r: "bisection R tol max_iter Emin Emax = ((a, b), c)"
    by (metis surj_pair)
  from h have "R Emin * R Emax \<le> 0" "Emin \<le> Emax" by auto
  from bisection_bracket [OF this(2) this(1) r]
  have br: "Emin \<le> a" "a \<le> b" "b \<le> Emax" "R a * R b \<le> 0" "c \<longrightarrow> b - a \<le> tol" by auto
  have s: "solve R Emin Emax tol max_iter = Inr \<lparr> Ef_sol = (a + b) / 2, ConvergenceWarning = \<not> c \<rparr>"
    using h r by (simp add: solve_def)
  show "\<exists>s lo hi. solve R Emin Emax tol max_iter = Inr s \<and>
         Emin \<le> lo \<and> lo \<le> Ef_sol s \<and> Ef_sol s \<le> hi \<and> hi \<le> Emax \<and>
         R lo * R hi \<le> 0 \<and> Ef_sol s = (lo + hi) / 2 \<and>
         (\<not> ConvergenceWarning s \<longrightarrow> hi - lo \<le> tol)"
    unfolding s using br by (intro exI [of _ a] exI [of _ b] exI) auto
qed

theorem solve_requires_bracket_witness:
  "sgn ((\<lambda>x. x - 1 / 3) (1::real)) = sgn ((\<lambda>x. x - 1 / 3) (2::real)) \<and>
   solve (\<lambda>x. x - 1 / 3) 1 2 (1 / 10) 5 = Inl NoBracketError \<and>
   (\<lambda>x. x - 1 / 3) (0::real) * (\<lambda>x. x - 1 / 3) (1::real) < 0 \<and> (0::real) \<le> 1 \<and>
   (\<exists>s lo hi. solve (\<lambda>x. x - 1 / 3) 0 1 (1 / 10) 5 = Inr s \<and>
      0 \<le> lo \<and> lo \<le> Ef_sol s \<and> Ef_sol s \<le> hi \<and> hi \<le> 1 \<and>
      (\<lambda>x. x - 1 / 3) lo * (\<lambda>x. x - 1 / 3) hi \<le> 0 \<and> Ef_sol s = (lo + hi) / 2 \<and>
      \<not> ConvergenceWarning s \<and> hi - lo \<le> 1 / 10)"
proof -
  let ?R = "\<lambda>x::real. x - 1 / 3"
  have h1: "sgn (?R 1) = sgn (?R 2)" by simp
  have h2: "?R 0 * ?R 1 < 0 \<and> (0::real) \<le> 1" by simp
  have ev: "solve ?R 0 1 (1 / 10) 5 = Inr \<lparr>Ef_sol = 11 / 32, ConvergenceWarning = False\<rparr>"
    by (simp add: solve_def eval_nat_numeral Let_def)
  note t1 = solve_requires_bracket [of ?R 1 2 "1 / 10" 5]
  note t2 = solve_requires_bracket [of ?R 0 1 "1 / 10" 5]
  from t1 h1 have a: "solve ?R 1 2 (1 / 10) 5 = Inl NoBracketError" by blast
  from t2 h2 obtain s lo hi where b: "solve ?R 0 1 (1 / 10) 5 = Inr s"
      "0 \<le> lo" "lo \<le> Ef_sol s" "Ef_sol s \<le> hi" "hi \<le> 1"
      "?R lo * ?R hi \<le> 0" "Ef_sol s = (lo + hi) / 2"
      "\<not> ConvergenceWarning s \<longrightarrow> hi - lo \<le> 1 / 10" by blast
  from b(1) ev have "\<not> ConvergenceWarning s" by auto
  with b a h1 h2 show ?thesis by (intro conjI exI [of _ s] exI [of _ lo] exI [of _ hi]) auto
qed

lemma kB_pos: "0 < kB" by (simp add: kB_def)

lemma fermi_dirac_antimono:
  assumes "0 < T" "x \<le> y"
  shows "fermi_dirac y T \<le> fermi_dirac x T"
proof -
  have k: "0 < kB * T" using assms(1) kB_pos by simp
  then have le: "x / (kB * T) \<le> y / (kB * T)" using assms(2) by (simp add: divide_right_mono)
  have th: "0 \<le> exp_threshold" by (simp add: exp_threshold_def)
  have b: "0 \<le> 1 / (1 + exp t)" "1 / (1 + exp t) \<le> 1" for t :: real
    by (simp_all add: add_pos_pos less_imp_le)
  have m: "1 / (1 + exp t) \<le> 1 / (1 + exp s)" if "s \<le> t" for s t :: real
    using that by (intro divide_left_mono) (auto simp: add_pos_pos)
  show ?thesis
    using assms(1) le th b m [OF le] by (auto simp: fermi_dirac_def Let_def)
qed

lemma fermi_dirac_range: "0 \<le> fermi_dirac x T \<and> fermi_dirac x T \<le> 1"
  by (auto simp: fermi_dirac_def Let_def add_pos_pos less_imp_le)

lemma trapezoid_mono:
  assumes "sorted_wrt (<) (map fst ps)" "length ps = length qs"
    and "\<forall>i < length ps. fst (qs ! i) = fst (ps ! i) \<and> snd (ps ! i) \<le> snd (qs ! i)"
  shows "trapezoid ps \<le> trapezoid qs"
  using assms
proof (induction ps arbitrary: qs rule: trapezoid.induct)
  case 1
  then show ?case by simp
next
  case (2 p)
  then show ?case by (cases qs) (auto simp: length_Suc_conv)
next
  case (3 x0 y0 x1 y1 ps)
  then obtain q0 q1 qs' where qs: "qs = q0 # q1 # qs'"
    by (metis length_Suc_conv)
  obtain u0 v0 u1 v1 where q: "q0 = (u0, v0)" "q1 = (u1, v1)" by (metis surj_pair)
  from "3.prems"(3) [rule_format, of 0] "3.prems"(3) [rule_format, of 1]
  have e: "u0 = x0" "u1 = x1" "y0 \<le> v0" "y1 \<le> v1" by (auto simp: qs q)
  have lt: "x0 < x1" using "3.prems"(1) by simp
  have tl: "trapezoid ((x1, y1) # ps) \<le> trapezoid (q1 # qs')"
  proof (rule "3.IH")
    show "sorted_wrt (<) (map fst ((x1, y1) # ps))" using "3.prems"(1) by simp
    show "length ((x1, y1) # ps) = length (q1 # qs')" using "3.prems"(2) by (simp add: qs)
    show "\<forall>i<length ((x1, y1) # ps).
       fst ((q1 # qs') ! i) = fst (((x1, y1) # ps) ! i) \<and>
       snd (((x1, y1) # ps) ! i) \<le> snd ((q1 # qs') ! i)"
    proof (intro allI impI)
      fix i assume "i < length ((x1, y1) # ps)"
      then have "Suc i < length ((x0, y0) # (x1, y1) # ps)" by simp
      from "3.prems"(3) [rule_format, OF this] show
        "fst ((q1 # qs') ! i) = fst (((x1, y1) # ps) ! i) \<and>
         snd (((x1, y1) # ps) ! i) \<le> snd ((q1 # qs') ! i)" by (simp add: qs)
    qed
  qed
  have "(x1 - x0) * (y0 + y1) / 2 \<le> (x1 - x0) * (v0 + v1) / 2"
    using lt e(3,4) by (intro divide_right_mono mult_left_mono) auto
  with tl show ?case by (simp add: qs q e)
qed

lemma sorted_wrt_fst_filter:
  "sorted_wrt (<) (map fst dos) \<Longrightarrow> sorted_wrt (<) (map fst (filter P dos))"
  by (induction dos) auto

lemma trapezoid_map_mono:
  assumes "sorted_wrt (<) (map fst ps)" "\<forall>p \<in> set ps. 0 \<le> snd p"
    and "\<And>E. w1 E \<le> w2 E"
  shows "trapezoid (map (\<lambda>(E, d). (E, d * w1 E)) ps)
       \<le> trapezoid (map (\<lambda>(E, d). (E, d * w2 E)) ps)"
proof (rule trapezoid_mono)
  show "sorted_wrt (<) (map fst (map (\<lambda>(E, d). (E, d * w1 E)) ps))"
    using assms(1) by (simp add: comp_def case_prod_unfold)
  show "length (map (\<lambda>(E, d). (E, d * w1 E)) ps) = length (map (\<lambda>(E, d). (E, d * w2 E)) ps)"
    by simp
  show "\<forall>i<length (map (\<lambda>(E, d). (E, d * w1 E)) ps).
       fst (map (\<lambda>(E, d). (E, d * w2 E)) ps ! i) = fst (map (\<lambda>(E, d). (E, d * w1 E)) ps ! i) \<and>
       snd (map (\<lambda>(E, d). (E, d * w1 E)) ps ! i) \<le> snd (map (\<lambda>(E, d). (E, d * w2 E)) ps ! i)"
  proof (intro allI impI)
    fix i assume "i < length (map (\<lambda>(E, d). (E, d * w1 E)) ps)"
    then have i: "i < length ps" by simp
    then have "0 \<le> snd (ps ! i)" using assms(2) by auto
    then have "snd (ps ! i) * w1 (fst (ps ! i)) \<le> snd (ps ! i) * w2 (fst (ps ! i))"
      using assms(3) by (intro mult_left_mono) auto
    with i show "fst (map (\<lambda>(E, d). (E, d * w2 E)) ps ! i) = fst (map (\<lambda>(E, d). (E, d * w1 E)) ps ! i) \<and>
       snd (map (\<lambda>(E, d). (E, d * w1 E)) ps ! i) \<le> snd (map (\<lambda>(E, d). (E, d * w2 E)) ps ! i)"
      by (simp add: case_prod_unfold)
  qed
qed

text \<open>
  Claim C3. For every valid DOS table, every temperature \<open>T > 0\<close> and every volume \<open>> 0\<close>,
  raising the Fermi level does not lower the electron concentration and does not raise the
  hole concentration.
\<close>

theorem carrier_concentrations_monotone:
  assumes "valid_dos dos" and "0 < T" and "0 < volume" and "Ef1 \<le> Ef2"
  shows "fst (carrier_concentrations dos Ev Ec Ef1 T volume)
           \<le> fst (carrier_concentrations dos Ev Ec Ef2 T volume)
       \<and> snd (carrier_concentrations dos Ev Ec Ef2 T volume)
           \<le> snd (carrier_concentrations dos Ev Ec Ef1 T volume)"
proof -
  have s: "sorted_wrt (<) (map fst (filter P dos))" and n: "\<forall>p \<in> set (filter P dos). 0 \<le> snd p"
    for P using assms(1) by (auto simp: valid_dos_def sorted_wrt_fst_filter)
  have f: "fermi_dirac (E - Ef1) T \<le> fermi_dirac (E - Ef2) T" for E
    using assms(4) by (intro fermi_dirac_antimono [OF assms(2)]) simp
  have e: "trapezoid (map (\<lambda>(E, d). (E, d * fermi_dirac (E - Ef1) T)) (filter (\<lambda>(E, d). Ec \<le> E) dos))
         \<le> trapezoid (map (\<lambda>(E, d). (E, d * fermi_dirac (E - Ef2) T)) (filter (\<lambda>(E, d). Ec \<le> E) dos))"
    by (rule trapezoid_map_mono [OF s n]) (rule f)
  have h: "trapezoid (map (\<lambda>(E, d). (E, d * (1 - fermi_dirac (E - Ef2) T))) (filter (\<lambda>(E, d). E \<le> Ev) dos))
         \<le> trapezoid (map (\<lambda>(E, d). (E, d * (1 - fermi_dirac (E - Ef1) T))) (filter (\<lambda>(E, d). E \<le> Ev) dos))"
    by (rule trapezoid_map_mono [OF s n]) (use f in simp)
  have c: "0 \<le> A3_per_cm3" by (simp add: A3_per_cm3_def)
  have v: "0 \<le> volume" using assms(3) by simp
  show ?thesis
    unfolding carrier_concentrations_def Let_def fst_conv snd_conv
    using e h by (intro conjI mult_right_mono divide_right_mono c v)
qed

theorem carrier_concentrations_monotone_witness:
  "valid_dos [(0, 1), (1, 2), (2, 1)] \<and> (0::real) < 300 \<and> (0::real) < 10 \<and> (0::real) \<le> 1 \<and>
   fst (carrier_concentrations [(0, 1), (1, 2), (2, 1)] 0 1 0 300 10)
     \<le> fst (carrier_concentrations [(0, 1), (1, 2), (2, 1)] 0 1 1 300 10) \<and>
   snd (carrier_concentrations [(0, 1), (1, 2), (2, 1)] 0 1 1 300 10)
     \<le> snd (carrier_concentrations [(0, 1), (1, 2), (2, 1)] 0 1 0 300 10)"
proof -
  have h: "valid_dos [(0, 1), (1, 2), (2, 1)]" "(0::real) < 300" "(0::real) < 10" "(0::real) \<le> 1"
    by (simp_all add: valid_dos_def)
  from carrier_concentrations_monotone [OF h, of 0 1] h show ?thesis by blast
qed

section \<open>Properties of the text functions\<close>

lemmas text_simps = py_split_def py_strip_def is_space_def is_digit_def digit_val_def
  digits_val_def is_exp_mark_def parse_mantissa_def parse_exponent_def decimal_literal_def
  upper_of_def is_name_def inf_or_nan_def float_literal_def digit_groups_def py_float_def
  np_float_def py_int_def newline_def strip_comment_def loadtxt_fields_def

lemma split_from_nonspace:
  "\<forall>c \<in> set w. \<not> is_space c \<Longrightarrow> split_from cur (w @ rest) = split_from (rev w @ cur) rest"
  by (induction w arbitrary: cur) auto

lemma split_from_space:
  "is_space c \<Longrightarrow>
     split_from cur (c # rest) = (if cur = [] then [] else [rev cur]) @ split_from [] rest"
  by simp

lemma split_from_append_space:
  "is_space c \<Longrightarrow> split_from cur (a @ c # b) = split_from cur a @ split_from [] b"
  by (induction a arbitrary: cur) auto

lemma py_split_append_space:
  "is_space c \<Longrightarrow> py_split (a @ c # b) = py_split a @ py_split b"
  by (simp add: py_split_def split_from_append_space)

lemma py_split_word: "is_word w \<Longrightarrow> py_split w = [w]"
  using split_from_nonspace [of w "[]" "[]"] by (auto simp: py_split_def is_word_def)

lemma py_split_spaces: "\<forall>c \<in> set s. is_space c \<Longrightarrow> py_split s = []"
  by (induction s) (auto simp: py_split_def)

lemma py_split_Cons_space: "is_space c \<Longrightarrow> py_split (c # s) = py_split s"
  by (simp add: py_split_def)

lemma py_split_snoc_space: "is_space c \<Longrightarrow> py_split (s @ [c]) = py_split s"
  using py_split_append_space [of c s "[]"] by (simp add: py_split_def)

lemma py_split_dropWhile: "py_split (dropWhile is_space s) = py_split s"
  by (induction s) (auto simp: py_split_Cons_space)

lemma py_split_drop_trailing: "py_split (rev (dropWhile is_space (rev s))) = py_split s"
proof (induction s rule: rev_induct)
  case Nil
  then show ?case by simp
next
  case (snoc c s)
  then show ?case by (auto simp: py_split_snoc_space)
qed

lemma py_split_strip: "py_split (py_strip s) = py_split s"
  by (simp add: py_strip_def py_split_drop_trailing py_split_dropWhile)

lemma py_strip_word: "\<forall>c \<in> set w. \<not> is_space c \<Longrightarrow> py_strip w = w"
proof -
  assume a: "\<forall>c \<in> set w. \<not> is_space c"
  then have "dropWhile is_space w = w" by (cases w) auto
  moreover from a have "dropWhile is_space (rev w) = rev w" by (cases "rev w") auto
  ultimately show ?thesis by (simp add: py_strip_def)
qed

lemma py_split_join:
  "\<forall>w \<in> set ws. is_word w \<Longrightarrow> py_split (join '' '' ws @ [newline]) = ws"
proof (induction "'' ''" ws rule: join.induct)
  case 1
  then show ?case by (simp add: py_split_def newline_def is_space_def)
next
  case (2 t)
  have "is_space newline" by (simp add: newline_def is_space_def)
  with 2 show ?case by (simp add: py_split_snoc_space py_split_word)
next
  case (3 t u ts)
  have sp: "is_space (CHR '' '')" by (simp add: is_space_def)
  have "py_split (join '' '' (t # u # ts) @ [newline])
      = py_split (t @ CHR '' '' # (join '' '' (u # ts) @ [newline]))" by simp
  also have "\<dots> = py_split t @ py_split (join '' '' (u # ts) @ [newline])"
    by (rule py_split_append_space [OF sp])
  also have "\<dots> = t # u # ts" using 3 by (simp add: py_split_word)
  finally show ?case .
qed

lemma digit_char_facts:
  "is_digit (digit_char n)" "digit_val (digit_char n) = n mod 10"
  "\<not> is_space (digit_char n)" "digit_char n \<noteq> CHR ''.''" "digit_char n \<noteq> CHR ''#''"
  "digit_char n \<noteq> CHR ''-''" "digit_char n \<noteq> CHR ''+''" "\<not> is_exp_mark (digit_char n)"
proof -
  have a: "\<forall>m \<in> {0, 1, 2, 3, 4, 5, 6, 7, 8, 9 :: nat}.
      is_digit (''0123456789'' ! m) \<and> digit_val (''0123456789'' ! m) = m \<and>
      \<not> is_space (''0123456789'' ! m) \<and> ''0123456789'' ! m \<noteq> CHR ''.'' \<and>
      ''0123456789'' ! m \<noteq> CHR ''#'' \<and> ''0123456789'' ! m \<noteq> CHR ''-'' \<and>
      ''0123456789'' ! m \<noteq> CHR ''+'' \<and> \<not> is_exp_mark (''0123456789'' ! m)"
    by (simp add: is_digit_def digit_val_def is_space_def is_exp_mark_def)
  have c: "n mod 10 \<in> {0, 1, 2, 3, 4, 5, 6, 7, 8, 9}" by simp presburger
  from a [rule_format, OF c]
  show "is_digit (digit_char n)" "digit_val (digit_char n) = n mod 10"
    "\<not> is_space (digit_char n)" "digit_char n \<noteq> CHR ''.''" "digit_char n \<noteq> CHR ''#''"
    "digit_char n \<noteq> CHR ''-''" "digit_char n \<noteq> CHR ''+''" "\<not> is_exp_mark (digit_char n)"
    unfolding digit_char_def by blast+
qed

lemma is_digit_facts:
  assumes "is_digit c"
  shows "\<not> is_space c" "c \<noteq> CHR ''.''" "c \<noteq> CHR ''#''" "c \<noteq> CHR ''-''" "c \<noteq> CHR ''+''"
    "\<not> is_exp_mark c" "c \<noteq> CHR ''_''"
  using assms unfolding is_digit_def is_space_def is_exp_mark_def by auto

lemma underscores_ok_plain:
  "\<forall>c \<in> set s. c \<noteq> CHR ''_'' \<Longrightarrow> prev \<noteq> CHR ''_'' \<Longrightarrow> underscores_ok prev s"
  by (induction s arbitrary: prev) auto

lemma digit_groups_plain: "\<forall>c \<in> set s. c \<noteq> CHR ''_'' \<Longrightarrow> digit_groups s = Some s"
  by (simp add: digit_groups_def underscores_ok_plain filter_id_conv)

lemma digits_val_snoc: "digits_val (s @ [c]) = 10 * digits_val s + digit_val c"
  by (simp add: digits_val_def)

lemma show_nat_digits: "list_all is_digit (show_nat n)"
  by (induction n rule: show_nat.induct) (subst show_nat.simps, simp add: digit_char_facts)

lemma show_nat_nonempty: "show_nat n \<noteq> []"
  by (subst show_nat.simps) simp

lemma digits_val_show_nat: "digits_val (show_nat n) = n"
proof (induction n rule: show_nat.induct)
  case (1 n)
  show ?case
  proof (cases "n < 10")
    case True
    then show ?thesis
      by (subst show_nat.simps) (simp add: digits_val_def digit_char_facts)
  next
    case False
    with 1 show ?thesis
      by (subst show_nat.simps) (simp add: digits_val_snoc digit_char_facts)
  qed
qed

lemma length_show_nat: "0 < k \<Longrightarrow> n < 10 ^ k \<Longrightarrow> length (show_nat n) \<le> k"
proof (induction n arbitrary: k rule: show_nat.induct)
  case (1 n)
  show ?case
  proof (cases "n < 10")
    case True
    with 1(2) show ?thesis by (subst show_nat.simps) simp
  next
    case False
    then obtain j where k: "k = Suc j" "0 < j"
      using 1(2,3) by (cases k; cases "k - 1") auto
    have "n div 10 < 10 ^ j" using 1(3) k by (simp add: less_mult_imp_div_less mult.commute)
    from 1(1) [OF False k(2) this] False k show ?thesis
      by (subst show_nat.simps) simp
  qed
qed

lemma digits_val_zeros: "digits_val (replicate k (CHR ''0'') @ s) = digits_val s"
proof -
  have "foldl (\<lambda>n c. 10 * n + digit_val c) 0 (replicate k (CHR ''0'')) = 0"
    by (induction k) (simp_all add: digit_val_def)
  then show ?thesis by (simp add: digits_val_def)
qed

lemma pad4_facts:
  assumes "r < 10 ^ 4"
  shows "length (pad4 r) = 4" "digits_val (pad4 r) = r" "list_all is_digit (pad4 r)"
proof -
  have l: "length (show_nat r) \<le> 4" using length_show_nat [of 4 r] assms by simp
  then show "length (pad4 r) = 4" by (simp add: pad4_def)
  show "digits_val (pad4 r) = r" by (simp add: pad4_def digits_val_zeros digits_val_show_nat)
  have z: "is_digit (CHR ''0'')" by (simp add: is_digit_def)
  show "list_all is_digit (pad4 r)"
    using show_nat_digits [of r] z by (auto simp: pad4_def list_all_iff)
qed

lemma list_all_digit_set: "list_all is_digit s \<Longrightarrow> c \<in> set s \<Longrightarrow> is_digit c"
  by (simp add: list_all_iff)

lemma parse_mantissa_digits:
  assumes "list_all is_digit ds" "list_all is_digit fs" "ds \<noteq> []"
  shows "parse_mantissa (ds @ CHR ''.'' # fs)
           = Some (real (digits_val ds) + real (digits_val fs) / 10 ^ length fs)"
proof -
  have d: "\<And>c. c \<in> set ds \<Longrightarrow> c \<noteq> CHR ''.''"
    using assms(1) is_digit_facts(2) list_all_digit_set by blast
  have t: "takeWhile (\<lambda>c. c \<noteq> CHR ''.'') (ds @ CHR ''.'' # fs) = ds"
    using d by (simp add: takeWhile_append2)
  have r: "dropWhile (\<lambda>c. c \<noteq> CHR ''.'') (ds @ CHR ''.'' # fs) = CHR ''.'' # fs"
    using d by (simp add: dropWhile_append2)
  show ?thesis unfolding parse_mantissa_def t r using assms by (simp add: Let_def)
qed

lemma parse_sign_digit: "is_digit c \<Longrightarrow> parse_sign (c # cs) = (1, c # cs)"
  by (simp add: is_digit_facts)

lemma decimal_literal_digits:
  assumes "list_all is_digit ds" "list_all is_digit fs" "ds \<noteq> []"
  shows "decimal_literal (ds @ CHR ''.'' # fs)
           = Some (real (digits_val ds) + real (digits_val fs) / 10 ^ length fs)"
    and "decimal_literal (CHR ''-'' # ds @ CHR ''.'' # fs)
           = Some (- (real (digits_val ds) + real (digits_val fs) / 10 ^ length fs))"
proof -
  let ?u = "ds @ CHR ''.'' # fs"
  have dg: "is_digit c \<or> c = CHR ''.''" if "c \<in> set ?u" for c
    using that assms(1,2) by (auto dest: list_all_digit_set)
  have pt: "\<not> is_exp_mark (CHR ''.'')" by (simp add: is_exp_mark_def)
  have ne: "\<And>c. c \<in> set ?u \<Longrightarrow> \<not> is_exp_mark c"
    using dg pt is_digit_facts(6) by blast
  have t: "takeWhile (\<lambda>c. \<not> is_exp_mark c) ?u = ?u" using ne by (simp add: takeWhile_eq_all_conv)
  have r: "dropWhile (\<lambda>c. \<not> is_exp_mark c) ?u = []" using ne by (simp add: dropWhile_eq_Nil_conv)
  obtain c cs where ds: "ds = c # cs" using assms(3) by (cases ds) auto
  then have c: "is_digit c" using assms(1) by simp
  have p1: "parse_sign ?u = (1, ?u)" using parse_sign_digit [OF c] by (simp add: ds)
  have p2: "parse_sign (CHR ''-'' # ?u) = (- 1, ?u)" by simp
  note m = parse_mantissa_digits [OF assms]
  show "decimal_literal ?u = Some (real (digits_val ds) + real (digits_val fs) / 10 ^ length fs)"
    unfolding decimal_literal_def p1 prod.case t r m by (simp add: parse_exponent_def)
  have "decimal_literal (CHR ''-'' # ?u)
      = Some (- (real (digits_val ds) + real (digits_val fs) / 10 ^ length fs))"
    unfolding decimal_literal_def p2 prod.case t r m by (simp add: parse_exponent_def)
  then show "decimal_literal (CHR ''-'' # ds @ CHR ''.'' # fs)
           = Some (- (real (digits_val ds) + real (digits_val fs) / 10 ^ length fs))" by simp
qed

lemma decimal_literal_fmt_4f: "decimal_literal (fmt_4f x) = Some (round4 x)"
proof -
  define n where "n = nat (round_half_even (\<bar>x\<bar> * 10 ^ 4))"
  let ?q = "n div 10 ^ 4" and ?r = "n mod 10 ^ 4"
  have r: "?r < 10 ^ 4" by simp
  note p = pad4_facts [OF r]
  have v: "real (digits_val (show_nat ?q)) + real (digits_val (pad4 ?r)) / 10 ^ length (pad4 ?r)
         = real n / 10 ^ 4"
  proof -
    have e: "?q * 10 ^ 4 + ?r = n" by (rule div_mult_mod_eq)
    have "real n = real (?q * 10 ^ 4 + ?r)" by (simp only: e)
    also have "\<dots> = real ?q * 10 ^ 4 + real ?r"
      by (simp only: of_nat_add of_nat_mult of_nat_power of_nat_numeral)
    finally have "real n / 10 ^ 4 = real ?q + real ?r / 10 ^ 4" by (simp add: field_simps)
    then show ?thesis by (simp only: digits_val_show_nat p(1,2))
  qed
  note f = decimal_literal_digits [OF show_nat_digits [of ?q] p(3) show_nat_nonempty [of ?q]]
  show ?thesis
  proof (cases "x < 0")
    case True
    then have "fmt_4f x = CHR ''-'' # show_nat ?q @ CHR ''.'' # pad4 ?r"
      by (simp add: fmt_4f_def n_def Let_def)
    with f(2) v True show ?thesis by (simp add: round4_def n_def)
  next
    case False
    then have "fmt_4f x = show_nat ?q @ CHR ''.'' # pad4 ?r"
      by (simp add: fmt_4f_def n_def Let_def)
    with f(1) v False show ?thesis by (simp add: round4_def n_def)
  qed
qed

lemma fmt_4f_chars:
  assumes "c \<in> set (fmt_4f x)"
  shows "\<not> is_space c" "c \<noteq> CHR ''#''" "c \<noteq> CHR ''_''"
proof -
  from assms have "is_digit c \<or> c = CHR ''-'' \<or> c = CHR ''.''"
    using show_nat_digits pad4_facts(3) [of "nat (round_half_even (\<bar>x\<bar> * 10 ^ 4)) mod 10 ^ 4"]
    by (auto simp: fmt_4f_def Let_def list_all_iff split: if_splits)
  then show "\<not> is_space c" "c \<noteq> CHR ''#''" "c \<noteq> CHR ''_''"
    by (auto simp: is_space_def dest: is_digit_facts)
qed

lemma fmt_4f_word: "is_word (fmt_4f x)"
  using fmt_4f_chars(1) [of _ x] by (auto simp: is_word_def) (simp add: fmt_4f_def Let_def)

text \<open>The number that a field written with \<open>%.4f\<close> denotes, for both conversions.\<close>

lemma float_fmt_4f:
  "py_float (fmt_4f x) = Some (Finite (round4 x))"
  "np_float (fmt_4f x) = Some (Finite (round4 x))"
proof -
  have s: "py_strip (fmt_4f x) = fmt_4f x"
    by (rule py_strip_word) (use fmt_4f_chars(1) in blast)
  have g: "digit_groups (fmt_4f x) = Some (fmt_4f x)"
    by (rule digit_groups_plain) (use fmt_4f_chars(3) in blast)
  have l: "float_literal (fmt_4f x) = Some (Finite (round4 x))"
    by (simp add: float_literal_def decimal_literal_fmt_4f)
  show "py_float (fmt_4f x) = Some (Finite (round4 x))" by (simp add: py_float_def s g l)
  show "np_float (fmt_4f x) = Some (Finite (round4 x))" by (simp add: np_float_def s l)
qed

text \<open>Rounding to four decimals: its error, and that it keeps the order.\<close>

lemma round_half_even_cases:
  "round_half_even a = \<lfloor>a\<rfloor> \<or> round_half_even a = \<lfloor>a\<rfloor> + 1"
  by (simp add: round_half_even_def Let_def)

lemma round_half_even_error:
  "\<bar>real_of_int (round_half_even a) - a\<bar> \<le> 1 / 2"
proof -
  define d where "d = a - real_of_int \<lfloor>a\<rfloor>"
  have d: "0 \<le> d" "d < 1" unfolding d_def by linarith+
  have a: "a = real_of_int \<lfloor>a\<rfloor> + d" by (simp add: d_def)
  have "round_half_even a = (if d < 1 / 2 then \<lfloor>a\<rfloor> else if 1 / 2 < d then \<lfloor>a\<rfloor> + 1
         else if even \<lfloor>a\<rfloor> then \<lfloor>a\<rfloor> else \<lfloor>a\<rfloor> + 1)"
    by (simp add: round_half_even_def Let_def d_def)
  then have "real_of_int (round_half_even a) - a
      = (if d < 1 / 2 then - d else if 1 / 2 < d then 1 - d
         else if even \<lfloor>a\<rfloor> then - d else 1 - d)"
    using a by auto
  with d show ?thesis by auto
qed

lemma round_half_even_mono:
  assumes "a \<le> b"
  shows "round_half_even a \<le> round_half_even b"
proof (cases "\<lfloor>a\<rfloor> = \<lfloor>b\<rfloor>")
  case True
  then have "a - real_of_int \<lfloor>a\<rfloor> \<le> b - real_of_int \<lfloor>b\<rfloor>" using assms by simp
  with True show ?thesis by (auto simp: round_half_even_def Let_def)
next
  case False
  with floor_mono [OF assms] have "\<lfloor>a\<rfloor> + 1 \<le> \<lfloor>b\<rfloor>" by simp
  moreover have "round_half_even a \<le> \<lfloor>a\<rfloor> + 1" using round_half_even_cases [of a] by auto
  moreover have "\<lfloor>b\<rfloor> \<le> round_half_even b" using round_half_even_cases [of b] by auto
  ultimately show ?thesis by simp
qed

lemma round_half_even_nonneg: "0 \<le> a \<Longrightarrow> 0 \<le> round_half_even a"
  using round_half_even_mono [of 0 a] by (simp add: round_half_even_def)

lemma round4_alt:
  "round4 x = (if x < 0 then - 1 else 1) * real_of_int (round_half_even (\<bar>x\<bar> * 10 ^ 4)) / 10 ^ 4"
  using round_half_even_nonneg [of "\<bar>x\<bar> * 10 ^ 4"] by (simp add: round4_def)

lemma round4_error: "\<bar>round4 x - x\<bar> \<le> 1 / 20000"
proof -
  define a where "a = \<bar>x\<bar> * 10 ^ 4"
  define r where "r = real_of_int (round_half_even a)"
  have e: "\<bar>r - a\<bar> \<le> 1 / 2" unfolding r_def by (rule round_half_even_error)
  have x: "x = (if x < 0 then - 1 else 1) * a / 10 ^ 4" by (simp add: a_def)
  have "round4 x - x = (if x < 0 then - 1 else 1) * (r - a) / 10 ^ 4"
    unfolding round4_alt r_def [symmetric] a_def [symmetric]
    by (subst (2) x) (simp add: field_simps)
  then have "\<bar>round4 x - x\<bar> = \<bar>(if x < 0 then - 1 else 1) * (r - a) / 10 ^ 4\<bar>"
    by (simp only:)
  also have "\<dots> = \<bar>r - a\<bar> / 10 ^ 4" by (simp add: abs_mult)
  finally show ?thesis using e by simp
qed

lemma round4_mono:
  assumes "x \<le> y"
  shows "round4 x \<le> round4 y"
proof -
  have nn: "0 \<le> real_of_int (round_half_even (\<bar>z\<bar> * 10 ^ 4))" for z :: real
    using round_half_even_nonneg [of "\<bar>z\<bar> * 10 ^ 4"] by simp
  consider "0 \<le> x" | "x < 0" "0 \<le> y" | "y < 0" using assms by linarith
  then show ?thesis
  proof cases
    case 1
    with assms have "\<bar>x\<bar> * 10 ^ 4 \<le> \<bar>y\<bar> * 10 ^ 4" by simp
    from round_half_even_mono [OF this] 1 assms show ?thesis
      by (simp add: round4_alt divide_right_mono)
  next
    case 2
    with nn [of x] nn [of y] show ?thesis by (simp add: round4_alt)
  next
    case 3
    with assms have "\<bar>y\<bar> * 10 ^ 4 \<le> \<bar>x\<bar> * 10 ^ 4" by simp
    from round_half_even_mono [OF this] 3 assms show ?thesis
      by (simp add: round4_alt divide_right_mono)
  qed
qed

lemma round4_strict:
  assumes "1 / 10 ^ 4 < y - x"
  shows "round4 x < round4 y"
proof -
  have "x - 1 / 20000 \<le> round4 x" "round4 x \<le> x + 1 / 20000"
    "y - 1 / 20000 \<le> round4 y" "round4 y \<le> y + 1 / 20000"
    using round4_error [of x] round4_error [of y] by linarith+
  with assms show ?thesis by (simp add: field_simps)
qed

lemma round4_Min:
  assumes "finite A" "A \<noteq> {}"
  shows "round4 (Min A) = Min (round4 ` A)"
  by (rule mono_Min_commute [OF _ assms]) (simp add: monoI round4_mono)

lemma set_join: "c \<in> set (join sep ws) \<Longrightarrow> c \<in> set sep \<or> (\<exists>w \<in> set ws. c \<in> set w)"
  by (induction sep ws rule: join.induct) auto

lemma parse_floats_fmt:
  "parse_floats np_float (map fmt_4f xs) = Inr (map (\<lambda>x. Finite (round4 x)) xs)"
  by (induction xs) (simp_all add: float_fmt_4f)

lemma parse_rows_fmt:
  "parse_rows np_float (map (map fmt_4f) xss) = Inr (map (map (\<lambda>x. Finite (round4 x))) xss)"
  by (induction xss) (simp_all add: parse_floats_fmt)

lemma row_line_fields:
  assumes "row \<noteq> []"
  shows "py_split (strip_comment (join '' '' (map fmt_4f row) @ [newline])) = map fmt_4f row"
    and "py_split (join '' '' (map fmt_4f row) @ [newline]) = map fmt_4f row"
proof -
  let ?l = "join '' '' (map fmt_4f row) @ [newline]"
  have "c \<noteq> CHR ''#''" if "c \<in> set ?l" for c
  proof -
    from that have "c = newline \<or> c \<in> set (join '' '' (map fmt_4f row))" by auto
    then show ?thesis
    proof
      assume "c = newline" then show ?thesis by (simp add: newline_def)
    next
      assume "c \<in> set (join '' '' (map fmt_4f row))"
      from set_join [OF this] show ?thesis using fmt_4f_chars(2) by auto
    qed
  qed
  then have s: "strip_comment ?l = ?l"
    unfolding strip_comment_def by (simp add: takeWhile_eq_all_conv)
  show 2: "py_split ?l = map fmt_4f row"
    by (rule py_split_join) (auto simp: fmt_4f_word)
  show "py_split (strip_comment ?l) = map fmt_4f row" unfolding s by (rule 2)
qed

lemma loadtxt_fields_savetxt:
  assumes "\<forall>row \<in> set X. row \<noteq> []"
  shows "loadtxt_fields (savetxt header X) = map (map fmt_4f) X"
proof -
  have h: "py_split (strip_comment (''# '' @ header @ [newline])) = []"
    by (simp add: strip_comment_def py_split_def)
  have "filter (\<lambda>r. r \<noteq> []) (map (\<lambda>l. py_split (strip_comment l))
          (map (\<lambda>row. join '' '' (map fmt_4f row) @ [newline]) X)) = map (map fmt_4f) X"
    using assms by (induction X) (simp_all add: row_line_fields(1))
  with h show ?thesis by (simp add: loadtxt_fields_def savetxt_def)
qed

lemma loadtxt_usecols_savetxt:
  assumes "\<forall>row \<in> set X. 3 \<le> length row"
  shows "loadtxt_usecols [0, 1, 2] (savetxt header X)
           = Inr (map (\<lambda>row. [Finite (round4 (row ! 0)), Finite (round4 (row ! 1)),
                               Finite (round4 (row ! 2))]) X)"
proof -
  have ne: "\<forall>row \<in> set X. row \<noteq> []" using assms by auto
  have c: "\<not> (\<exists>r \<in> set (map (map fmt_4f) X). \<exists>c \<in> set [0, 1, 2 :: nat]. length r \<le> c)"
    using assms by auto
  have r: "map (\<lambda>c. map fmt_4f row ! c) [0, 1, 2 :: nat] = map fmt_4f [row ! 0, row ! 1, row ! 2]"
    if "3 \<le> length row" for row
  proof -
    from that obtain a b c rest where "row = a # b # c # rest"
      by (cases row; cases "tl row"; cases "tl (tl row)") auto
    then show ?thesis by simp
  qed
  have e: "map (\<lambda>r. map (\<lambda>c. r ! c) [0, 1, 2 :: nat]) (map (map fmt_4f) X)
      = map (map fmt_4f) (map (\<lambda>row. [row ! 0, row ! 1, row ! 2]) X)"
    using assms r by (induction X) (simp_all del: list.map)
  have m: "map (map (\<lambda>x. Finite (round4 x))) (map (\<lambda>row. [row ! 0, row ! 1, row ! 2]) X)
      = map (\<lambda>row. [Finite (round4 (row ! 0)), Finite (round4 (row ! 1)),
                     Finite (round4 (row ! 2))]) X"
    by simp
  have "parse_rows np_float (map (\<lambda>r. map (\<lambda>c. r ! c) [0, 1, 2 :: nat]) (map (map fmt_4f) X))
      = Inr (map (\<lambda>row. [Finite (round4 (row ! 0)), Finite (round4 (row ! 1)),
                          Finite (round4 (row ! 2))]) X)"
    unfolding e parse_rows_fmt m ..
  with c show ?thesis
    unfolding loadtxt_usecols_def loadtxt_fields_savetxt [OF ne] Let_def by simp
qed

lemma py_split_pad: "is_word w \<Longrightarrow> py_split (replicate k (CHR '' '') @ w) = [w]"
  by (induction k) (simp_all add: py_split_word py_split_Cons_space is_space_def)

lemma header_fields:
  "\<exists>pre. py_split (py_strip (''# '' @ formation_header valence Volume @ [newline]))
           = pre @ [fmt_4f Volume, ''1'']"
proof -
  let ?A = "''# Ef, Eformation'' @ concat (map (\<lambda>q. '', q_'' @ fmt_plus_d q) valence) @ '';''"
  let ?B = "fmt_12_4f Volume"
  let ?C = "''   1'' @ [newline]"
  have sp: "is_space (CHR '' '')" by (simp add: is_space_def)
  have e: "''# '' @ formation_header valence Volume @ [newline]
         = ?A @ CHR '' '' # (?B @ CHR '' '' # ?C)"
    by (simp add: formation_header_def)
  have b: "py_split ?B = [fmt_4f Volume]"
    unfolding fmt_12_4f_def by (rule py_split_pad [OF fmt_4f_word])
  have c: "py_split ?C = [''1'']" by (simp add: py_split_def is_space_def newline_def)
  have "py_split (''# '' @ formation_header valence Volume @ [newline])
      = py_split ?A @ [fmt_4f Volume, ''1'']"
    unfolding e py_split_append_space [OF sp] b c by simp
  then show ?thesis unfolding py_split_strip by blast
qed

lemma py_float_one: "py_float ''1'' = Some (Finite 1)"
  by (simp add: text_simps)

lemma read_header_formation:
  "read_header (savetxt (formation_header valence Volume) X)
     = Inr (Finite (round4 Volume), Finite 1)"
proof -
  obtain pre where p: "py_split (py_strip (''# '' @ formation_header valence Volume @ [newline]))
           = pre @ [fmt_4f Volume, ''1'']" using header_fields by blast
  have n: "(pre @ [fmt_4f Volume, ''1'']) ! (length (pre @ [fmt_4f Volume, ''1'']) - 2)
         = fmt_4f Volume" by (simp add: nth_append)
  show ?thesis
    unfolding read_header_def savetxt_def list.case Let_def p n
    by (simp add: float_fmt_4f py_float_one)
qed

section \<open>Properties of the data files\<close>

lemma Eform_row_length: "length q = length E0q \<Longrightarrow> length (Eform_row q E0q m) = length q"
  by (simp add: Eform_row_def)

lemma hstack3_formation:
  assumes "formation_calc valence E0q emin emax npts = Inr out"
  shows "hstack3 (miu out) (Efmin out) (Eform out)
           = map (\<lambda>m. m # row_min (Eform_row valence E0q m) # Eform_row valence E0q m) (miu out)"
proof -
  note f = formation_calc_Inr [OF assms]
  show ?thesis
    unfolding f(6) f(5) hstack3_def
    by (rule nth_equalityI) simp_all
qed

text \<open>
  The data file of a table that the calculation returned: its lines, the fields of every
  line, and what \<open>read_formation\<close> reads from it.
\<close>

lemma formation_file_rows:
  assumes "formation_calc valence E0q emin emax npts = Inr out"
  shows "length (formation_file valence Volume out) = Suc (length (miu out))"
    and "i < length (miu out) \<Longrightarrow>
           py_split (formation_file valence Volume out ! Suc i)
             = map fmt_4f (miu out ! i # Efmin out ! i # Eform out ! i)"
    and "i < length (miu out) \<Longrightarrow> length (Eform out ! i) = length valence"
    and "read_formation (formation_file valence Volume out) False
            = Inr ((map (\<lambda>x. Finite (round4 x)) (miu out),
                    map (\<lambda>x. Finite (round4 x)) (Efmin out),
                    map (\<lambda>row. Finite (round4 (row ! 0))) (Eform out)),
                   Finite (round4 Volume), Finite 1)"
proof -
  note f = formation_calc_Inr [OF assms]
  let ?R = "Eform_row valence E0q"
  let ?X = "map (\<lambda>m. m # row_min (?R m) # ?R m) (miu out)"
  let ?txt = "formation_file valence Volume out"
  have X: "hstack3 (miu out) (Efmin out) (Eform out) = ?X" by (rule hstack3_formation [OF assms])
  have sv: "?txt = savetxt (formation_header valence Volume) ?X"
    unfolding formation_file_def X ..
  have len: "length (?R m) = length valence" for m by (rule Eform_row_length [OF f(2)])
  have pos: "Suc 0 \<le> length valence" using f(3) by (cases valence) auto
  have three: "\<forall>row \<in> set ?X. 3 \<le> length row" using len pos by auto
  show "length ?txt = Suc (length (miu out))" unfolding sv savetxt_def by simp
  { assume i: "i < length (miu out)"
    have "?txt ! Suc i
        = join '' '' (map fmt_4f (miu out ! i # row_min (?R (miu out ! i)) # ?R (miu out ! i)))
            @ [newline]"
      unfolding sv savetxt_def using i by simp
    moreover have e: "Efmin out ! i = row_min (?R (miu out ! i))" "Eform out ! i = ?R (miu out ! i)"
      using i unfolding f(6) f(5) by simp_all
    ultimately show "py_split (?txt ! Suc i)
        = map fmt_4f (miu out ! i # Efmin out ! i # Eform out ! i)"
      using row_line_fields(2) [of "miu out ! i # Efmin out ! i # Eform out ! i"] by simp
    show "length (Eform out ! i) = length valence" unfolding e(2) by (rule len) }
  have rows: "loadtxt_usecols [0, 1, 2] ?txt
      = Inr (map (\<lambda>row. [Finite (round4 (row ! 0)), Finite (round4 (row ! 1)),
                          Finite (round4 (row ! 2))]) ?X)"
    unfolding sv by (rule loadtxt_usecols_savetxt [OF three])
  have hdr: "read_header ?txt = Inr (Finite (round4 Volume), Finite 1)"
    unfolding sv by (rule read_header_formation)
  have c0: "map (\<lambda>r. r ! 0) (map (\<lambda>row. [Finite (round4 (row ! 0)), Finite (round4 (row ! 1)),
                          Finite (round4 (row ! 2))]) ?X)
      = map (\<lambda>x. Finite (round4 x)) (miu out)" by (simp add: comp_def)
  have c1: "map (\<lambda>r. r ! 1) (map (\<lambda>row. [Finite (round4 (row ! 0)), Finite (round4 (row ! 1)),
                          Finite (round4 (row ! 2))]) ?X)
      = map (\<lambda>x. Finite (round4 x)) (Efmin out)" unfolding f(6) f(5) by (simp add: comp_def)
  have c2: "map (\<lambda>r. r ! 2) (map (\<lambda>row. [Finite (round4 (row ! 0)), Finite (round4 (row ! 1)),
                          Finite (round4 (row ! 2))]) ?X)
      = map (\<lambda>row. Finite (round4 (row ! 0))) (Eform out)" unfolding f(5) by (simp add: comp_def)
  show "read_formation ?txt False
            = Inr ((map (\<lambda>x. Finite (round4 x)) (miu out),
                    map (\<lambda>x. Finite (round4 x)) (Efmin out),
                    map (\<lambda>row. Finite (round4 (row ! 0))) (Eform out)),
                   Finite (round4 Volume), Finite 1)"
    unfolding read_formation_def hdr rows sum.case prod.case Let_def c0 c1 c2 by simp
qed

text \<open>Texts written with \<open>%.4f\<close> and \<open>{:+d}\<close>, evaluated.\<close>

lemma replicate_values:
  "replicate 2 c = [c, c]" "replicate 3 c = [c, c, c]" "replicate 6 c = [c, c, c, c, c, c]"
  by (simp_all add: eval_nat_numeral)

lemma fmt_4f_values:
  "fmt_4f 0 = ''0.0000''" "fmt_4f 1 = ''1.0000''" "fmt_4f 2 = ''2.0000''"
  "fmt_4f (1 / 16384) = ''0.0001''" "fmt_4f (1 / 8192) = ''0.0001''"
  "fmt_4f (16385 / 16384) = ''1.0001''" "fmt_4f (8193 / 8192) = ''1.0001''"
  "fmt_4f (1 / 2) = ''0.5000''" "fmt_4f (3 / 2) = ''1.5000''"
  by (simp_all add: fmt_4f_def pad4_def round_half_even_def Let_def show_nat.simps
      digit_char_def replicate_values)

lemma formation_header_value:
  "formation_header [0, 1] 1 = ''Ef, Eformation, q_+0, q_+1;       1.0000    1''"
  by (simp add: formation_header_def fmt_12_4f_def fmt_plus_d_def fmt_4f_values
      show_nat.simps digit_char_def replicate_values)

text \<open>
  A run on an interval of width \<open>2^-13\<close>, evaluated: the charge states \<open>q = 0\<close> (\<open>E0 = 2\<close>) and
  \<open>q = +1\<close> (\<open>E0 = 1\<close>), three samples.
\<close>

lemma formation_calc_run_small:
  "formation_calc [0, 1] [2, 1] 0 (1 / 8192) 3 =
     Inr \<lparr>miu = [0, 1 / 16384, 1 / 8192], Efmin = [1, 16385 / 16384, 8193 / 8192],
          Eform = [[2, 1], [2, 16385 / 16384], [2, 8193 / 8192]],
          tq = [1], eq = [1], printed = []\<rparr>"
  by (simp add: formation_calc_def linspace_def Eform_row_def np_unique_def transitions_def
      E_t_def E_d_def Let_def upt_rec)

lemma formation_run_small:
  "formation [0, 1] [2, 1] 1 0 (1 / 8192) 3 =
     Inr (\<lparr>miu = [0, 1 / 16384, 1 / 8192], Efmin = [1, 16385 / 16384, 8193 / 8192],
           Eform = [[2, 1], [2, 16385 / 16384], [2, 8193 / 8192]],
           tq = [1], eq = [1], printed = []\<rparr>,
          [''# Ef, Eformation, q_+0, q_+1;       1.0000    1'' @ [newline],
           ''0.0000 1.0000 2.0000 1.0000'' @ [newline],
           ''0.0001 1.0001 2.0000 1.0001'' @ [newline],
           ''0.0001 1.0001 2.0000 1.0001'' @ [newline]])"
  by (simp add: formation_def formation_calc_run_small formation_file_def savetxt_def
      hstack3_def formation_header_value fmt_4f_values)

lemma read_formation_run_small:
  "read_formation [''# Ef, Eformation, q_+0, q_+1;       1.0000    1'' @ [newline],
           ''0.0000 1.0000 2.0000 1.0000'' @ [newline],
           ''0.0001 1.0001 2.0000 1.0001'' @ [newline],
           ''0.0001 1.0001 2.0000 1.0001'' @ [newline]] False
   = Inr (([Finite 0, Finite (1 / 10000), Finite (1 / 10000)],
           [Finite 1, Finite (10001 / 10000), Finite (10001 / 10000)],
           [Finite 2, Finite 2, Finite 2]), Finite 1, Finite 1)"
  by (simp add: read_formation_def read_header_def loadtxt_usecols_def text_simps Let_def)

text \<open>
  Claim C1 fails as stated for the table that \<open>formation\<close> writes: with \<open>emin = 0\<close>,
  \<open>emax = 2^-13\<close> and three samples the written Fermi levels are 0.0000, 0.0001 and 0.0001, and
  \<open>read_formation\<close> reads the last two as the same number. The column is not strictly
  increasing.
\<close>

theorem formation_table_counterexample:
  "(0::real) < 1 / 8192 \<and> (2::int) \<le> 3
 \<and> formation [0, 1] [2, 1] 1 0 (1 / 8192) 3 =
     Inr (\<lparr>miu = [0, 1 / 16384, 1 / 8192], Efmin = [1, 16385 / 16384, 8193 / 8192],
           Eform = [[2, 1], [2, 16385 / 16384], [2, 8193 / 8192]],
           tq = [1], eq = [1], printed = []\<rparr>,
          [''# Ef, Eformation, q_+0, q_+1;       1.0000    1'' @ [newline],
           ''0.0000 1.0000 2.0000 1.0000'' @ [newline],
           ''0.0001 1.0001 2.0000 1.0001'' @ [newline],
           ''0.0001 1.0001 2.0000 1.0001'' @ [newline]])
 \<and> read_formation [''# Ef, Eformation, q_+0, q_+1;       1.0000    1'' @ [newline],
           ''0.0000 1.0000 2.0000 1.0000'' @ [newline],
           ''0.0001 1.0001 2.0000 1.0001'' @ [newline],
           ''0.0001 1.0001 2.0000 1.0001'' @ [newline]] False
     = Inr (([Finite 0, Finite (1 / 10000), Finite (1 / 10000)],
             [Finite 1, Finite (10001 / 10000), Finite (10001 / 10000)],
             [Finite 2, Finite 2, Finite 2]), Finite 1, Finite 1)
 \<and> \<not> sorted_wrt (<) [0, 1 / 10000, 1 / 10000 :: real]"
proof -
  have "\<not> sorted_wrt (<) [a, b, b]" for a b :: real by simp
  then have "\<not> sorted_wrt (<) [0, 1 / 10000, 1 / 10000 :: real]" .
  with formation_run_small read_formation_run_small show ?thesis by (intro conjI) simp_all
qed

text \<open>
  Claim C1, as amended. For every configuration with \<open>emin < emax\<close> and \<open>npts \<ge> 2\<close>,
  \<open>formation\<close> returns whenever there is at least one charge state (with its energy), and
  the table it computes satisfies the invariant: the Fermi-level column has \<open>npts\<close> entries,
  is strictly increasing with the uniform spacing \<open>(emax - emin) / (npts - 1)\<close>, and the
  minimum at every sample \<open>Ef[i]\<close> is the minimum over all configured charge states \<open>q\<close> of
  \<open>E0_q + q * Ef[i]\<close>, attained by one of them. The file it writes has one line for every
  sample; the fields of the line are \<open>Ef[i]\<close>, the minimum and the energy of every charge
  state, each written with four decimals, which changes a number by at most 0.00005. Of
  the numbers written, the Fermi-level column is non-decreasing, and strictly increasing
  when the spacing is greater than 0.0001; the minimum written in a line is the minimum
  of the charge-state energies written in that line. For the charge states \<open>q = 0\<close>
  (\<open>E0 = 2.0\<close>) and \<open>q = +1\<close> (\<open>E0 = 1.0\<close>) the row at \<open>Ef = 0.5\<close> holds the energies 2.0 and 1.5,
  the minimum is 1.5, attained at \<open>q = +1\<close>, and the line written is
  \<open>0.5000 1.5000 2.0000 1.5000\<close>.
\<close>

theorem formation_table_invariant:
  assumes "emin < emax" and "2 \<le> npts"
  shows "(valence \<noteq> [] \<and> length valence = length E0q \<longrightarrow>
            (\<exists>out txt. formation valence E0q Volume emin emax npts = Inr (out, txt)))
       \<and> (\<forall>out txt. formation valence E0q Volume emin emax npts = Inr (out, txt) \<longrightarrow>
            length (miu out) = nat npts \<and> length (Efmin out) = nat npts \<and>
            sorted_wrt (<) (miu out) \<and>
            (\<forall>i. Suc i < nat npts \<longrightarrow>
               miu out ! Suc i - miu out ! i = (emax - emin) / real_of_int (npts - 1)) \<and>
            (\<forall>i<nat npts.
               Efmin out ! i =
                 Min ((\<lambda>k. line (valence ! k) (E0q ! k) (miu out ! i)) ` {..<length valence}) \<and>
               (\<exists>k<length valence. Efmin out ! i = line (valence ! k) (E0q ! k) (miu out ! i))) \<and>
            length txt = Suc (nat npts) \<and>
            (\<forall>i<nat npts.
               py_split (txt ! Suc i) =
                 map fmt_4f (miu out ! i # Efmin out ! i #
                   map (\<lambda>k. line (valence ! k) (E0q ! k) (miu out ! i)) [0..<length valence]) \<and>
               round4 (Efmin out ! i) =
                 Min ((\<lambda>k. round4 (line (valence ! k) (E0q ! k) (miu out ! i))) `
                      {..<length valence})) \<and>
            sorted (map round4 (miu out)) \<and>
            (1 / 10 ^ 4 < (emax - emin) / real_of_int (npts - 1) \<longrightarrow>
               sorted_wrt (<) (map round4 (miu out))))
       \<and> np_float (fmt_4f x) = Some (Finite (round4 x)) \<and> \<bar>round4 x - x\<bar> \<le> 1 / 20000
       \<and> (\<exists>out txt. formation [0, 1] [2, 1] Volume 0 1 3 = Inr (out, txt) \<and>
             miu out ! 1 = 1 / 2 \<and> Eform out ! 1 = [line 0 2 (1 / 2), line 1 1 (1 / 2)] \<and>
             Efmin out ! 1 = 3 / 2 \<and> [0, 1 :: int] ! row_argmin (Eform out ! 1) = 1 \<and>
             py_split (txt ! 2) = [''0.5000'', ''1.5000'', ''2.0000'', ''1.5000''])"
proof (intro conjI allI impI)
  assume "valence \<noteq> [] \<and> length valence = length E0q"
  then obtain out where "formation_calc valence E0q emin emax npts = Inr out"
    using formation_calc_returns [of npts valence E0q emin emax] assms(2) by auto
  then show "\<exists>out txt. formation valence E0q Volume emin emax npts = Inr (out, txt)"
    by (simp add: formation_def)
next
  fix out ls assume "formation valence E0q Volume emin emax npts = Inr (out, ls)"
  then have out: "formation_calc valence E0q emin emax npts = Inr out"
    and tx: "ls = formation_file valence Volume out"
    by (auto simp: formation_def split: sum.splits)
  note f = formation_calc_Inr [OF out]
  note w = formation_file_rows [OF out]
  let ?n = "nat npts"
  define st where "st = (emax - emin) / real (?n - 1)"
  have len: "length (miu out) = ?n" using linspace_length [OF _ f(1)] assms(2) by simp
  have nth: "miu out ! i = emin + real i * st" if "i < ?n" for i
    using linspace_nth [OF assms(2) f(1) that] unfolding st_def .
  have step: "0 < st" using assms by (simp add: st_def)
  have rn: "real (?n - 1) = real_of_int (npts - 1)" using assms(2) by (simp add: of_nat_diff)
  have lt: "miu out ! i < miu out ! j" and gap: "st \<le> miu out ! j - miu out ! i"
    if "i < j" "j < ?n" for i j
  proof -
    from that have ij: "i < ?n" "j < ?n" by auto
    have d: "miu out ! j - miu out ! i = real (j - i) * st"
      using that by (simp add: nth ij of_nat_diff algebra_simps)
    have "1 \<le> real (j - i)" using that(1) by simp
    then have "1 * st \<le> real (j - i) * st" using step by (intro mult_right_mono) auto
    with d show "st \<le> miu out ! j - miu out ! i" by simp
    with step show "miu out ! i < miu out ! j" by simp
  qed
  have row: "Eform out ! i = map (\<lambda>k. line (valence ! k) (E0q ! k) (miu out ! i)) [0..<length valence]"
    and E: "Efmin out ! i = row_min (Eform out ! i)" and ne: "Eform out ! i \<noteq> []"
    if "i < ?n" for i
  proof -
    have "Eform out ! i = Eform_row valence E0q (miu out ! i)" using that len f(5) by simp
    then show r: "Eform out ! i
        = map (\<lambda>k. line (valence ! k) (E0q ! k) (miu out ! i)) [0..<length valence]"
      by (simp add: Eform_row_lines [OF f(2)])
    show "Efmin out ! i = row_min (Eform out ! i)" using that len f(5,6) by simp
    show "Eform out ! i \<noteq> []" unfolding r using f(3) by simp
  qed
  have M: "Efmin out ! i
      = Min ((\<lambda>k. line (valence ! k) (E0q ! k) (miu out ! i)) ` {..<length valence})"
    if "i < ?n" for i
    unfolding E [OF that] row_min_Min [OF ne [OF that]] unfolding row [OF that]
    by (simp add: atLeast0LessThan)
  show "length (miu out) = ?n" by (rule len)
  show "length (Efmin out) = ?n" using f(5,6) len by simp
  show "sorted_wrt (<) (miu out)"
    unfolding sorted_wrt_iff_nth_less using lt len by simp
  { fix i assume "Suc i < ?n"
    then have "miu out ! Suc i - miu out ! i = st" by (simp add: nth algebra_simps)
    then show "miu out ! Suc i - miu out ! i = (emax - emin) / real_of_int (npts - 1)"
      unfolding st_def rn . }
  { fix i assume i: "i < ?n"
    show "Efmin out ! i
        = Min ((\<lambda>k. line (valence ! k) (E0q ! k) (miu out ! i)) ` {..<length valence})"
      by (rule M [OF i])
    from row_argmin_attains [OF ne [OF i]]
    have "row_argmin (Eform out ! i) < length valence"
      "Eform out ! i ! row_argmin (Eform out ! i) = row_min (Eform out ! i)"
      unfolding row [OF i] by simp_all
    then show "\<exists>k<length valence. Efmin out ! i = line (valence ! k) (E0q ! k) (miu out ! i)"
      unfolding E [OF i] by (subst (asm) (2) row [OF i])
        (auto intro!: exI [of _ "row_argmin (Eform out ! i)"])
    show "py_split (ls ! Suc i) =
            map fmt_4f (miu out ! i # Efmin out ! i #
              map (\<lambda>k. line (valence ! k) (E0q ! k) (miu out ! i)) [0..<length valence])"
      unfolding tx using w(2) [of i Volume] i len row [OF i] by simp
    have "0 \<in> {..<length valence}" using f(3) by simp
    then have "(\<lambda>k. line (valence ! k) (E0q ! k) (miu out ! i)) ` {..<length valence} \<noteq> {}"
      by blast
    from round4_Min [OF _ this]
    show "round4 (Efmin out ! i) =
            Min ((\<lambda>k. round4 (line (valence ! k) (E0q ! k) (miu out ! i))) ` {..<length valence})"
      unfolding M [OF i] by (simp add: image_image) }
  show "length ls = Suc ?n" unfolding tx w(1) len ..
  show "sorted (map round4 (miu out))"
  proof -
    have "sorted_wrt (\<lambda>x y. round4 x \<le> round4 y) (miu out)"
      unfolding sorted_wrt_iff_nth_less
    proof (intro allI impI)
      fix i j assume "i < j" "j < length (miu out)"
      then have "miu out ! i \<le> miu out ! j" using lt [of i j] len by simp
      then show "round4 (miu out ! i) \<le> round4 (miu out ! j)" by (rule round4_mono)
    qed
    then show ?thesis by (simp add: sorted_map)
  qed
  { assume "1 / 10 ^ 4 < (emax - emin) / real_of_int (npts - 1)"
    then have s: "1 / 10 ^ 4 < st" unfolding st_def rn .
    have "sorted_wrt (\<lambda>x y. round4 x < round4 y) (miu out)"
      unfolding sorted_wrt_iff_nth_less
    proof (intro allI impI)
      fix i j assume "i < j" "j < length (miu out)"
      then have "st \<le> miu out ! j - miu out ! i" using gap len by simp
      with s have "1 / 10 ^ 4 < miu out ! j - miu out ! i" by simp
      then show "round4 (miu out ! i) < round4 (miu out ! j)" by (rule round4_strict)
    qed
    then show "sorted_wrt (<) (map round4 (miu out))" by (simp add: sorted_wrt_map) }
next
  show "np_float (fmt_4f x) = Some (Finite (round4 x))" by (rule float_fmt_4f(2))
  show "\<bar>round4 x - x\<bar> \<le> 1 / 20000" by (rule round4_error)
next
  let ?out = "\<lparr>miu = [0, 1 / 2, 1], Efmin = [1, 3 / 2, 2], Eform = [[2, 1], [2, 3 / 2], [2, 2]],
          tq = [0, 1], eq = [2, 1], printed = [((0, 1), 1, 2)]\<rparr>"
  have ev: "formation [0, 1] [2, 1] Volume 0 1 3 = Inr (?out, formation_file [0, 1] Volume ?out)"
    by (simp add: formation_def formation_calc_run_0_1)
  have "(1::nat) < length (miu ?out)" by simp
  from formation_file_rows(2) [OF formation_calc_run_0_1 this, of Volume]
  have "py_split (formation_file [0, 1] Volume ?out ! 2)
      = [''0.5000'', ''1.5000'', ''2.0000'', ''1.5000'']"
    by (simp add: fmt_4f_values numeral_2_eq_2)
  with ev show "\<exists>out txt. formation [0, 1] [2, 1] Volume 0 1 3 = Inr (out, txt) \<and>
             miu out ! 1 = 1 / 2 \<and> Eform out ! 1 = [line 0 2 (1 / 2), line 1 1 (1 / 2)] \<and>
             Efmin out ! 1 = 3 / 2 \<and> [0, 1 :: int] ! row_argmin (Eform out ! 1) = 1 \<and>
             py_split (txt ! 2) = [''0.5000'', ''1.5000'', ''2.0000'', ''1.5000'']"
    by (intro exI [of _ ?out] exI [of _ "formation_file [0, 1] Volume ?out"])
      (simp add: line_def)
qed

theorem formation_table_invariant_witness:
  "(0::real) < 1 \<and> (2::int) \<le> 3 \<and> [0, 1 :: int] \<noteq> [] \<and>
   length [0, 1 :: int] = length [2, 1 :: real] \<and>
   (\<exists>out txt. formation [0, 1] [2, 1] 1 0 1 3 = Inr (out, txt) \<and>
      length (miu out) = nat 3 \<and> sorted_wrt (<) (miu out) \<and>
      Suc 0 < nat 3 \<and> miu out ! Suc 0 - miu out ! 0 = (1 - 0) / real_of_int (3 - 1) \<and>
      1 < nat 3 \<and>
      Efmin out ! 1 =
        Min ((\<lambda>k. line ([0, 1] ! k) ([2, 1] ! k) (miu out ! 1)) ` {..<length [0, 1 :: int]}) \<and>
      length txt = Suc (nat 3) \<and>
      py_split (txt ! Suc 1) =
        map fmt_4f (miu out ! 1 # Efmin out ! 1 #
          map (\<lambda>k. line ([0, 1] ! k) ([2, 1] ! k) (miu out ! 1)) [0..<length [0, 1 :: int]]) \<and>
      round4 (Efmin out ! 1) =
        Min ((\<lambda>k. round4 (line ([0, 1] ! k) ([2, 1] ! k) (miu out ! 1))) `
             {..<length [0, 1 :: int]}) \<and>
      sorted (map round4 (miu out)) \<and>
      1 / 10 ^ 4 < (1 - 0) / real_of_int (3 - 1) \<and>
      sorted_wrt (<) (map round4 (miu out)))"
proof -
  have h: "(0::real) < 1" "(2::int) \<le> 3" by simp_all
  note t = formation_table_invariant [OF h, where valence = "[0, 1]" and E0q = "[2, 1]"
      and Volume = 1]
  have v: "[0, 1 :: int] \<noteq> [] \<and> length [0, 1 :: int] = length [2, 1 :: real]" by simp
  from t [THEN conjunct1, rule_format, OF v]
  obtain out ls where out: "formation [0, 1] [2, 1] 1 0 1 3 = Inr (out, ls)" by blast
  note c = t [THEN conjunct2, THEN conjunct1, rule_format, OF out]
  have g: "(1::real) / 10 ^ 4 < (1 - 0) / real_of_int (3 - 1)" by simp
  have n: "Suc 0 < nat 3" "1 < nat 3" by simp_all
  from c have p: "length (miu out) = nat 3" "sorted_wrt (<) (miu out)"
    "\<forall>i. Suc i < nat 3 \<longrightarrow> miu out ! Suc i - miu out ! i = (1 - 0) / real_of_int (3 - 1)"
    "\<forall>i<nat 3. Efmin out ! i =
        Min ((\<lambda>k. line ([0, 1] ! k) ([2, 1] ! k) (miu out ! i)) ` {..<length [0, 1 :: int]})"
    "length ls = Suc (nat 3)"
    "\<forall>i<nat 3.
       py_split (ls ! Suc i) =
         map fmt_4f (miu out ! i # Efmin out ! i #
           map (\<lambda>k. line ([0, 1] ! k) ([2, 1] ! k) (miu out ! i)) [0..<length [0, 1 :: int]]) \<and>
       round4 (Efmin out ! i) =
         Min ((\<lambda>k. round4 (line ([0, 1] ! k) ([2, 1] ! k) (miu out ! i))) `
              {..<length [0, 1 :: int]})"
    "sorted (map round4 (miu out))"
    "1 / 10 ^ 4 < (1 - 0) / real_of_int (3 - 1) \<longrightarrow> sorted_wrt (<) (map round4 (miu out))"
    by blast+
  from p(3) n(1) have a: "miu out ! Suc 0 - miu out ! 0 = (1 - 0) / real_of_int (3 - 1)"
    by blast
  from p(4) n(2) have b: "Efmin out ! 1 =
        Min ((\<lambda>k. line ([0, 1] ! k) ([2, 1] ! k) (miu out ! 1)) ` {..<length [0, 1 :: int]})"
    by blast
  from p(6) n(2) have d: "py_split (ls ! Suc 1) =
         map fmt_4f (miu out ! 1 # Efmin out ! 1 #
           map (\<lambda>k. line ([0, 1] ! k) ([2, 1] ! k) (miu out ! 1)) [0..<length [0, 1 :: int]])"
    "round4 (Efmin out ! 1) =
         Min ((\<lambda>k. round4 (line ([0, 1] ! k) ([2, 1] ! k) (miu out ! 1))) `
              {..<length [0, 1 :: int]})"
    by blast+
  from p(8) g have e: "sorted_wrt (<) (map round4 (miu out))" by blast
  have "\<exists>out txt. formation [0, 1] [2, 1] 1 0 1 3 = Inr (out, txt) \<and>
      length (miu out) = nat 3 \<and> sorted_wrt (<) (miu out) \<and>
      Suc 0 < nat 3 \<and> miu out ! Suc 0 - miu out ! 0 = (1 - 0) / real_of_int (3 - 1) \<and>
      1 < nat 3 \<and>
      Efmin out ! 1 =
        Min ((\<lambda>k. line ([0, 1] ! k) ([2, 1] ! k) (miu out ! 1)) ` {..<length [0, 1 :: int]}) \<and>
      length txt = Suc (nat 3) \<and>
      py_split (txt ! Suc 1) =
        map fmt_4f (miu out ! 1 # Efmin out ! 1 #
          map (\<lambda>k. line ([0, 1] ! k) ([2, 1] ! k) (miu out ! 1)) [0..<length [0, 1 :: int]]) \<and>
      round4 (Efmin out ! 1) =
        Min ((\<lambda>k. round4 (line ([0, 1] ! k) ([2, 1] ! k) (miu out ! 1))) `
             {..<length [0, 1 :: int]}) \<and>
      sorted (map round4 (miu out)) \<and>
      1 / 10 ^ 4 < (1 - 0) / real_of_int (3 - 1) \<and>
      sorted_wrt (<) (map round4 (miu out))"
    using out p(1,2,5,7) n a b d g e
    by (intro exI [of _ out] exI [of _ ls] conjI)
  with h v show ?thesis by blast
qed

text \<open>
  Claim C5. The data file that \<open>formation\<close> writes starts with a header line whose last
  two fields are the volume, written with four decimals, and \<open>1\<close> for \<open>gx\<close>; one line
  follows for every Fermi-level sample, and its whitespace-separated fields are \<open>Ef\<close>, the
  minimum formation energy and one formation energy for every charge state.
  \<open>read_formation\<close> applied to this file returns the numbers that these fields denote:
  the volume and the \<open>gx\<close> of the header, and the first three columns of the table.
\<close>

theorem formation_file_round_trip:
  assumes "formation valence E0q Volume emin emax npts = Inr (out, txt)"
  shows "(\<exists>pre. py_split (py_strip (hd txt)) = pre @ [fmt_4f Volume, ''1''])
       \<and> py_float (fmt_4f Volume) = Some (Finite (round4 Volume))
       \<and> py_float ''1'' = Some (Finite 1)
       \<and> length txt = Suc (length (miu out))
       \<and> (\<forall>i < length (miu out).
            py_split (txt ! Suc i)
              = map fmt_4f (miu out ! i # Efmin out ! i # Eform out ! i) \<and>
            length (Eform out ! i) = length valence)
       \<and> read_formation txt False
            = Inr ((map (\<lambda>x. Finite (round4 x)) (miu out),
                    map (\<lambda>x. Finite (round4 x)) (Efmin out),
                    map (\<lambda>row. Finite (round4 (row ! 0))) (Eform out)),
                   Finite (round4 Volume), Finite 1)"
proof -
  from assms have out: "formation_calc valence E0q emin emax npts = Inr out"
    and tx: "txt = formation_file valence Volume out"
    by (auto simp: formation_def split: sum.splits)
  note f = formation_calc_Inr [OF out]
  note w = formation_file_rows [OF out]
  have hd: "hd txt = ''# '' @ formation_header valence Volume @ [newline]"
    unfolding tx formation_file_def savetxt_def by simp
  have 1: "\<exists>pre. py_split (py_strip (hd txt)) = pre @ [fmt_4f Volume, ''1'']"
    unfolding hd by (rule header_fields)
  have 2: "length txt = Suc (length (miu out))" unfolding tx by (rule w(1))
  have 3: "py_split (txt ! Suc i) = map fmt_4f (miu out ! i # Efmin out ! i # Eform out ! i) \<and>
           length (Eform out ! i) = length valence" if i: "i < length (miu out)" for i
    unfolding tx using w(2,3) [OF i] by simp
  have 4: "read_formation txt False
            = Inr ((map (\<lambda>x. Finite (round4 x)) (miu out),
                    map (\<lambda>x. Finite (round4 x)) (Efmin out),
                    map (\<lambda>row. Finite (round4 (row ! 0))) (Eform out)),
                   Finite (round4 Volume), Finite 1)"
    unfolding tx by (rule w(4))
  from 1 2 3 4 float_fmt_4f(1) py_float_one show ?thesis by blast
qed

lemma round4_values:
  "round4 0 = 0" "round4 (1 / 2) = 1 / 2" "round4 1 = 1" "round4 (3 / 2) = 3 / 2"
  "round4 2 = 2" "round4 (201 / 2) = 201 / 2"
  by (simp_all add: round4_def round_half_even_def Let_def)

theorem formation_file_round_trip_witness:
  "\<exists>out txt. formation [0, 1] [2, 1] (201 / 2) 0 1 3 = Inr (out, txt) \<and>
     (\<exists>pre. py_split (py_strip (hd txt)) = pre @ [fmt_4f (201 / 2), ''1'']) \<and>
     length txt = 4 \<and> 0 < length (miu out) \<and>
     py_split (txt ! Suc 0) = map fmt_4f (miu out ! 0 # Efmin out ! 0 # Eform out ! 0) \<and>
     length (Eform out ! 0) = length [0, 1 :: int] \<and>
     read_formation txt False
       = Inr (([Finite 0, Finite (1 / 2), Finite 1], [Finite 1, Finite (3 / 2), Finite 2],
               [Finite 2, Finite 2, Finite 2]), Finite (201 / 2), Finite 1)"
proof -
  let ?out = "\<lparr>miu = [0, 1 / 2, 1], Efmin = [1, 3 / 2, 2], Eform = [[2, 1], [2, 3 / 2], [2, 2]],
          tq = [0, 1], eq = [2, 1], printed = [((0, 1), 1, 2)]\<rparr>"
  let ?txt = "formation_file [0, 1] (201 / 2) ?out"
  have ev: "formation [0, 1] [2, 1] (201 / 2) 0 1 3 = Inr (?out, ?txt)"
    by (simp add: formation_def formation_calc_run_0_1)
  note t = formation_file_round_trip [OF ev]
  from t have a: "\<exists>pre. py_split (py_strip (hd ?txt)) = pre @ [fmt_4f (201 / 2), ''1'']"
    by blast
  from t have b: "length ?txt = 4" by simp
  have i: "0 < length (miu ?out)" by simp
  from t have "\<forall>i < length (miu ?out).
            py_split (?txt ! Suc i)
              = map fmt_4f (miu ?out ! i # Efmin ?out ! i # Eform ?out ! i) \<and>
            length (Eform ?out ! i) = length [0, 1 :: int]" by blast
  from this [rule_format, OF i]
  have c: "py_split (?txt ! Suc 0) = map fmt_4f (miu ?out ! 0 # Efmin ?out ! 0 # Eform ?out ! 0)"
    "length (Eform ?out ! 0) = length [0, 1 :: int]" by blast+
  from t have "read_formation ?txt False
            = Inr ((map (\<lambda>x. Finite (round4 x)) (miu ?out),
                    map (\<lambda>x. Finite (round4 x)) (Efmin ?out),
                    map (\<lambda>row. Finite (round4 (row ! 0))) (Eform ?out)),
                   Finite (round4 (201 / 2)), Finite 1)" by blast
  then have d: "read_formation ?txt False
      = Inr (([Finite 0, Finite (1 / 2), Finite 1], [Finite 1, Finite (3 / 2), Finite 2],
              [Finite 2, Finite 2, Finite 2]), Finite (201 / 2), Finite 1)"
    by (simp add: round4_values)
  from ev a b i c d show ?thesis by blast
qed

section \<open>Properties of the readers\<close>

lemma parse_floats_Inl: "parse_floats conv ts = Inl e \<Longrightarrow> e = ValueError"
  by (induction ts arbitrary: e) (auto split: option.splits sum.splits)

lemma parse_rows_Inl: "parse_rows conv rs = Inl e \<Longrightarrow> e = ValueError"
  by (induction rs arbitrary: e) (auto split: sum.splits dest: parse_floats_Inl)

lemma read_dos_rows_Inr:
  "read_dos_rows sel f = Inr (en, ds) \<longleftrightarrow>
     (\<exists>xss. parse_rows py_float (dos_fields sel) = Inr xss \<and> (\<forall>xs \<in> set xss. 2 \<le> length xs) \<and>
            en = map (\<lambda>xs. fl_sub (xs ! 0) f) xss \<and> ds = map (\<lambda>xs. xs ! 1) xss)"
proof (induction sel arbitrary: en ds)
  case Nil
  then show ?case by (auto simp: dos_fields_def)
next
  case (Cons l sel)
  show ?case
  proof (cases "take 1 l = ''#''")
    case True
    then have "dos_fields (l # sel) = dos_fields sel" by (simp add: dos_fields_def)
    with True Cons show ?thesis by simp
  next
    case False
    then have d: "dos_fields (l # sel) = py_split (py_strip l) # dos_fields sel"
      by (simp add: dos_fields_def)
    show ?thesis
    proof (cases "parse_floats py_float (py_split (py_strip l))")
      case (Inl e)
      with False d show ?thesis by simp
    next
      case (Inr xs)
      show ?thesis
      proof (cases "length xs < 2")
        case True
        with False d Inr show ?thesis by (auto split: sum.splits)
      next
        case L: False
        show ?thesis
        proof (cases "read_dos_rows sel f")
          case (Inl e)
          then have "\<not> (\<exists>xss. parse_rows py_float (dos_fields sel) = Inr xss \<and>
              (\<forall>xs \<in> set xss. 2 \<le> length xs))"
            using Cons.IH by (metis sum.distinct(1))
          with False d Inr L Inl show ?thesis by (auto split: sum.splits)
        next
          case R: (Inr p)
          obtain en' ds' where p: "p = (en', ds')" by (cases p)
          from Cons.IH [of en' ds'] R p obtain xss where
            x: "parse_rows py_float (dos_fields sel) = Inr xss" "\<forall>xs \<in> set xss. 2 \<le> length xs"
            "en' = map (\<lambda>xs. fl_sub (xs ! 0) f) xss" "ds' = map (\<lambda>xs. xs ! 1) xss" by auto
          from False d Inr L R p x show ?thesis by auto
        qed
      qed
    qed
  qed
qed

lemma read_dos_rows_Inl: "read_dos_rows sel f = Inl e \<Longrightarrow> e = IndexError \<or> e = ValueError"
  by (induction sel arbitrary: e)
    (auto split: if_splits sum.splits prod.splits dest: parse_floats_Inl)

lemma data_select_Inl: "data_select data = Inl e \<Longrightarrow> e = IndexError \<or> e = ValueError"
  by (auto simp: data_select_def Let_def split: if_splits option.splits)

lemma read_dos_Inl: "read_dos data f = Inl e \<Longrightarrow> e = IndexError \<or> e = ValueError"
  by (auto simp: read_dos_def split: sum.splits dest: data_select_Inl read_dos_rows_Inl)

lemma read_header_Inl: "read_header lines = Inl e \<Longrightarrow> e = ValueError"
  by (auto simp: read_header_def Let_def split: if_splits option.splits)

lemma read_header_Inr:
  "read_header lines = Inr (volume, gx) \<longleftrightarrow>
     2 \<le> length (py_split (py_strip (case lines of [] \<Rightarrow> [] | l # _ \<Rightarrow> l))) \<and>
     py_float (py_split (py_strip (case lines of [] \<Rightarrow> [] | l # _ \<Rightarrow> l)) !
               (length (py_split (py_strip (case lines of [] \<Rightarrow> [] | l # _ \<Rightarrow> l))) - 2))
       = Some volume \<and>
     py_float (last (py_split (py_strip (case lines of [] \<Rightarrow> [] | l # _ \<Rightarrow> l)))) = Some gx"
  by (auto simp: read_header_def Let_def split: option.splits)

lemma loadtxt_usecols_Inl: "loadtxt_usecols cols lines = Inl e \<Longrightarrow> e = ValueError"
  by (auto simp: loadtxt_usecols_def Let_def split: if_splits dest: parse_rows_Inl)

lemma read_formation_Inl:
  "read_formation lines False = Inl e \<Longrightarrow> e = ValueError"
  by (auto simp: read_formation_def Let_def split: sum.splits prod.splits
      dest: read_header_Inl loadtxt_usecols_Inl)

lemma num_i_nth:
  assumes "4 \<le> length data" "k < 4"
  shows "map (\<lambda>l. length (py_split (py_strip l))) (take 6 data) ! k
           = length (py_split (py_strip (data ! k)))"
  using assms by simp

lemma data_select_plain:
  assumes "4 \<le> length data"
    and "\<not> (length (py_split (py_strip (data ! 0))) = 4 \<and>
            length (py_split (py_strip (data ! 2))) = 1 \<and>
            length (py_split (py_strip (data ! 3))) = 1)"
  shows "data_select data = Inr data"
proof -
  have "0 < (4::nat)" "2 < (4::nat)" "3 < (4::nat)" by simp_all
  note num_i_nth [OF assms(1) this(1)] num_i_nth [OF assms(1) this(2)]
    num_i_nth [OF assms(1) this(3)]
  with assms show ?thesis unfolding data_select_def Let_def by auto
qed

lemma data_select_header:
  assumes "4 \<le> length data"
    and "length (py_split (py_strip (data ! 0))) = 4"
    and "length (py_split (py_strip (data ! 2))) = 1"
    and "length (py_split (py_strip (data ! 3))) = 1"
  shows "data_select data = Inr sel \<longleftrightarrow>
           6 \<le> length data \<and> 3 \<le> length (py_split (py_strip (data ! 5))) \<and>
           (\<exists>NEDOS. py_int (py_split (py_strip (data ! 5)) ! 2) = Some NEDOS \<and>
                    sel = py_slice data 6 (6 + NEDOS))"
proof -
  have "0 < (4::nat)" "2 < (4::nat)" "3 < (4::nat)" by simp_all
  note n = num_i_nth [OF assms(1) this(1)] num_i_nth [OF assms(1) this(2)]
    num_i_nth [OF assms(1) this(3)]
  have l: "\<not> length (map (\<lambda>l. length (py_split (py_strip l))) (take 6 data)) < 4"
    using assms(1) by simp
  show ?thesis
    unfolding data_select_def Let_def n using l assms(2-4)
    by (auto split: option.splits)
qed

lemma data_select_doscar:
  assumes "6 \<le> length data"
    and "length (py_split (py_strip (data ! 0))) = 4"
    and "length (py_split (py_strip (data ! 2))) = 1"
    and "length (py_split (py_strip (data ! 3))) = 1"
    and "3 \<le> length (py_split (py_strip (data ! 5)))"
    and "py_int (py_split (py_strip (data ! 5)) ! 2) = Some NEDOS" and "0 \<le> NEDOS"
  shows "data_select data = Inr (take (nat NEDOS) (drop 6 data))"
proof -
  have "py_slice data 6 (6 + NEDOS) = take (nat NEDOS) (drop 6 data)"
  proof (cases "6 + NEDOS \<le> int (length data)")
    case True
    have "nat (6 + NEDOS) - 6 = nat NEDOS" using assms(7) by simp
    with True assms(7) show ?thesis by (simp add: py_slice_def Let_def min_def)
  next
    case False
    then have "length data - 6 \<le> nat NEDOS" by simp
    with False assms(7) show ?thesis by (simp add: py_slice_def Let_def min_def)
  qed
  moreover have "4 \<le> length data" using assms(1) by simp
  ultimately show ?thesis
    using data_select_header [OF _ assms(2-4), of "take (nat NEDOS) (drop 6 data)"] assms(1,5,6)
    by simp
qed

lemma read_dos_Inr:
  "read_dos data efermi = Inr (energy, dos) \<longleftrightarrow>
     (\<exists>sel xss. data_select data = Inr sel \<and> parse_rows py_float (dos_fields sel) = Inr xss \<and>
        (\<forall>xs \<in> set xss. 2 \<le> length xs) \<and>
        energy = map (\<lambda>xs. fl_sub (xs ! 0) efermi) xss \<and> dos = map (\<lambda>xs. xs ! 1) xss)"
  unfolding read_dos_def using read_dos_rows_Inr [of _ efermi energy dos]
  by (cases "data_select data") auto

lemma read_dos_table:
  assumes "data_select data = Inr sel"
    and "parse_rows py_float (dos_fields sel) = Inr xss" and "\<forall>xs \<in> set xss. 2 \<le> length xs"
  shows "read_dos data efermi
           = Inr (map (\<lambda>xs. fl_sub (xs ! 0) efermi) xss, map (\<lambda>xs. xs ! 1) xss)"
  using assms read_dos_rows_Inr [of sel efermi] by (simp add: read_dos_def)

lemma squeeze_table:
  assumes "2 \<le> length xss" "2 \<le> length (hd xss)"
  shows "squeeze xss = Array2 xss"
  using assms by (auto simp: squeeze_def split: list.splits)

lemma read_H0_table:
  assumes "read_header lines = Inr (volume, gx)" and "loadtxt lines = Inr (Array2 rows)"
  shows "length (hd rows) = 3 \<Longrightarrow> read_H0 lines = Inr (Array2 rows, volume)"
    and "length (hd rows) = 2 \<Longrightarrow>
           read_H0 lines = Inr (Array2 (map (\<lambda>r. r @ [gx]) rows), volume)"
    and "3 < length (hd rows) \<Longrightarrow> read_H0 lines = Inr (Array2 (map (take 3) rows), volume)"
    and "length (hd rows) < 2 \<Longrightarrow>
           read_H0 lines = Inl (RuntimeError ''Charge and H0 columns must be included.'')"
  using assms by (simp_all add: read_H0_def)

lemma loadtxt_Array2:
  assumes "loadtxt lines = Inr (Array2 rows)"
  shows "2 \<le> length rows \<and> 2 \<le> length (hd rows)"
proof -
  from assms obtain xss where x: "parse_rows np_float (loadtxt_fields lines) = Inr xss"
    "squeeze xss = Array2 rows"
    by (auto simp: loadtxt_def Let_def split: if_splits sum.splits)
  from x(2) have r: "xss = rows" "2 \<le> length rows" "length (hd rows) \<noteq> 1"
    by (auto simp: squeeze_def split: list.splits if_splits)
  have f: "\<forall>r \<in> set (loadtxt_fields lines). r \<noteq> []" by (simp add: loadtxt_fields_def)
  have pr: "parse_rows np_float fs = Inr ys \<Longrightarrow> length ys = length fs \<and>
      (\<forall>i < length fs. length (ys ! i) = length (fs ! i))" for fs ys
  proof (induction fs arbitrary: ys)
    case Nil
    then show ?case by simp
  next
    case (Cons a fs)
    have pf: "parse_floats np_float ts = Inr zs \<Longrightarrow> length zs = length ts" for ts zs
      by (induction ts arbitrary: zs) (auto split: option.splits sum.splits)
    from Cons.prems obtain z zs where z: "parse_floats np_float a = Inr z"
      "parse_rows np_float fs = Inr zs" "ys = z # zs" by (auto split: sum.splits)
    from Cons.IH [OF z(2)] pf [OF z(1)] z(3) show ?case by (auto simp: nth_Cons split: nat.splits)
  qed
  from pr [OF x(1)] r have l: "length (loadtxt_fields lines) = length rows"
    and a: "\<forall>i < length rows. length (rows ! i) = length (loadtxt_fields lines ! i)"
    by auto
  from l r(2) have ne: "rows \<noteq> []" "loadtxt_fields lines \<noteq> []" by auto
  from a [rule_format, of 0] r(2) ne
  have "length (loadtxt_fields lines) = length rows"
    "length (hd rows) = length (hd (loadtxt_fields lines))"
    using l by (simp_all add: hd_conv_nth)
  moreover from this r(2) have "hd (loadtxt_fields lines) \<in> set (loadtxt_fields lines)"
    by (cases "loadtxt_fields lines") auto
  ultimately have "length (hd rows) \<noteq> 0" using f by auto
  then have "2 \<le> length (hd rows)" using r(3) by arith
  with r(2) show ?thesis by blast
qed

lemma loadtxt_usecols_Inr:
  "loadtxt_usecols [0, 1, 2] lines = Inr rows \<longleftrightarrow>
     (\<forall>r \<in> set (loadtxt_fields lines). 3 \<le> length r) \<and>
     parse_rows np_float (map (\<lambda>r. [r ! 0, r ! 1, r ! 2]) (loadtxt_fields lines)) = Inr rows"
proof -
  have k: "(\<exists>c \<in> set [0, 1, 2 :: nat]. n \<le> c) \<longleftrightarrow> \<not> 3 \<le> n" for n :: nat
    by simp arith
  have m: "map (\<lambda>r. map (\<lambda>c. r ! c) [0, 1, 2 :: nat]) fs = map (\<lambda>r. [r ! 0, r ! 1, r ! 2]) fs"
    for fs :: "string list list" by simp
  show ?thesis unfolding loadtxt_usecols_def Let_def k m by auto
qed

lemma read_formation_Inr:
  "read_formation lines False = Inr (cols, volume, gx) \<longleftrightarrow>
     (\<exists>rows. read_header lines = Inr (volume, gx) \<and>
        loadtxt_usecols [0, 1, 2] lines = Inr rows \<and>
        cols = (map (\<lambda>r. r ! 0) rows, map (\<lambda>r. r ! 1) rows, map (\<lambda>r. r ! 2) rows))"
  by (auto simp: read_formation_def Let_def split: sum.splits prod.splits)

text \<open>
  Claim C9, at data files whose table has a single column. \<open>np.loadtxt\<close> returns such a
  table as a one-dimensional array, and \<open>read_H0\<close> takes the number of its rows for the
  number of columns: three rows are returned as they are, two rows fail in the padding
  with \<open>ValueError\<close>, four rows fail in the slicing with \<open>IndexError\<close>. The
  \<open>RuntimeError\<close> for fewer than two columns is raised in none of these cases.
\<close>

theorem read_H0_one_column_table:
  "read_H0 [''# volume gx: 100.0 1'' @ [newline], ''1'' @ [newline], ''2'' @ [newline],
            ''3'' @ [newline]] = Inr (Array1 [Finite 1, Finite 2, Finite 3], Finite 100)
 \<and> read_H0 [''# volume gx: 100.0 1'' @ [newline], ''1'' @ [newline], ''2'' @ [newline]]
      = Inl ValueError
 \<and> read_H0 [''# volume gx: 100.0 1'' @ [newline], ''1'' @ [newline], ''2'' @ [newline],
            ''3'' @ [newline], ''4'' @ [newline]] = Inl IndexError"
  by (simp add: read_H0_def read_header_def loadtxt_def squeeze_def text_simps Let_def)

text \<open>
  Claim C6, at a plain two-column file of three lines: the test for a DOSCAR reads the
  number of fields of the fourth line and raises \<open>IndexError\<close>, although the file is a
  table of energies and densities. The same table with one more row is read.
\<close>

theorem read_dos_short_file:
  "read_dos [''0.0 1.0'' @ [newline], ''1.0 2.0'' @ [newline], ''2.0 1.5'' @ [newline]]
     (Finite 0) = Inl IndexError
 \<and> read_dos [''0.0 1.0'' @ [newline], ''1.0 2.0'' @ [newline], ''2.0 1.5'' @ [newline],
             ''3.0 0.5'' @ [newline]] (Finite 0)
     = Inr ([Finite 0, Finite 1, Finite 2, Finite 3],
            [Finite 1, Finite 2, Finite (3 / 2), Finite (1 / 2)])"
  by (simp add: read_dos_def data_select_def text_simps Let_def)

lemma parse_floats_Inr:
  "parse_floats conv ts = Inr xs \<longleftrightarrow>
     (\<forall>t \<in> set ts. conv t \<noteq> None) \<and> xs = map (\<lambda>t. the (conv t)) ts"
proof (induction ts arbitrary: xs)
  case Nil
  then show ?case by auto
next
  case (Cons t ts)
  show ?case
  proof (cases "conv t")
    case None
    then show ?thesis by auto
  next
    case (Some x)
    show ?thesis
    proof (cases "parse_floats conv ts")
      case (Inl e)
      with Cons [of "map (\<lambda>t. the (conv t)) ts"] have "\<not> (\<forall>t \<in> set ts. conv t \<noteq> None)"
        by simp
      with Some Inl show ?thesis by auto
    next
      case (Inr ys)
      with Cons [of ys] have "(\<forall>t \<in> set ts. conv t \<noteq> None)" "ys = map (\<lambda>t. the (conv t)) ts"
        by simp_all
      with Some Inr show ?thesis by auto
    qed
  qed
qed

lemma parse_rows_Inr:
  "parse_rows conv rs = Inr xss \<longleftrightarrow>
     (\<forall>r \<in> set rs. \<forall>t \<in> set r. conv t \<noteq> None) \<and> xss = map (map (\<lambda>t. the (conv t))) rs"
proof (induction rs arbitrary: xss)
  case Nil
  then show ?case by auto
next
  case (Cons r rs)
  show ?case
  proof (cases "parse_floats conv r")
    case (Inl e)
    with parse_floats_Inr [of conv r "map (\<lambda>t. the (conv t)) r"]
    have "\<not> (\<forall>t \<in> set r. conv t \<noteq> None)" by simp
    with Inl show ?thesis by auto
  next
    case (Inr xs)
    then have x: "(\<forall>t \<in> set r. conv t \<noteq> None)" "xs = map (\<lambda>t. the (conv t)) r"
      by (simp_all add: parse_floats_Inr)
    show ?thesis
    proof (cases "parse_rows conv rs")
      case (Inl e)
      with Cons [of "map (map (\<lambda>t. the (conv t))) rs"]
      have "\<not> (\<forall>r \<in> set rs. \<forall>t \<in> set r. conv t \<noteq> None)" by simp
      with Inr Inl show ?thesis by auto
    next
      case R: (Inr yss)
      with Cons [of yss] have "(\<forall>r \<in> set rs. \<forall>t \<in> set r. conv t \<noteq> None)"
        "yss = map (map (\<lambda>t. the (conv t))) rs" by simp_all
      with Inr R x show ?thesis by auto
    qed
  qed
qed

lemma read_dos_fields:
  "read_dos data efermi = Inr (energy, dos) \<longleftrightarrow>
     (\<exists>sel. data_select data = Inr sel \<and>
        (\<forall>r \<in> set (dos_fields sel). 2 \<le> length r \<and> (\<forall>t \<in> set r. py_float t \<noteq> None)) \<and>
        energy = map (\<lambda>r. fl_sub (the (py_float (r ! 0))) efermi) (dos_fields sel) \<and>
        dos = map (\<lambda>r. the (py_float (r ! 1))) (dos_fields sel))"
proof -
  let ?g = "\<lambda>t. the (py_float t)"
  have m: "map (\<lambda>xs. fl_sub (xs ! 0) efermi) (map (map ?g) F)
             = map (\<lambda>r. fl_sub (?g (r ! 0)) efermi) F"
    "map (\<lambda>xs. xs ! 1) (map (map ?g) F) = map (\<lambda>r. ?g (r ! 1)) F"
    if "\<forall>r \<in> set F. 2 \<le> length r" for F :: "string list list"
  proof -
    have "map ?g r ! 0 = ?g (r ! 0)" "map ?g r ! 1 = ?g (r ! 1)" if "r \<in> set F" for r
    proof -
      from that \<open>\<forall>r \<in> set F. 2 \<le> length r\<close> have "2 \<le> length r" by blast
      then have "0 < length r" "1 < length r" by linarith+
      then show "map ?g r ! 0 = ?g (r ! 0)" "map ?g r ! 1 = ?g (r ! 1)"
        by (simp_all only: nth_map)
    qed
    then show "map (\<lambda>xs. fl_sub (xs ! 0) efermi) (map (map ?g) F)
             = map (\<lambda>r. fl_sub (?g (r ! 0)) efermi) F"
      "map (\<lambda>xs. xs ! 1) (map (map ?g) F) = map (\<lambda>r. ?g (r ! 1)) F"
      by simp_all
  qed
  show ?thesis
    unfolding read_dos_Inr parse_rows_Inr
  proof (intro iffI; elim exE conjE)
    fix sel xss
    assume a: "data_select data = Inr sel" "\<forall>r \<in> set (dos_fields sel). \<forall>t \<in> set r. py_float t \<noteq> None"
      "xss = map (map ?g) (dos_fields sel)" "\<forall>xs \<in> set xss. 2 \<le> length xs"
      "energy = map (\<lambda>xs. fl_sub (xs ! 0) efermi) xss" "dos = map (\<lambda>xs. xs ! 1) xss"
    from a(3,4) have l: "\<forall>r \<in> set (dos_fields sel). 2 \<le> length r" by simp
    from a l m [OF l] show "\<exists>sel. data_select data = Inr sel \<and>
        (\<forall>r \<in> set (dos_fields sel). 2 \<le> length r \<and> (\<forall>t \<in> set r. py_float t \<noteq> None)) \<and>
        energy = map (\<lambda>r. fl_sub (the (py_float (r ! 0))) efermi) (dos_fields sel) \<and>
        dos = map (\<lambda>r. the (py_float (r ! 1))) (dos_fields sel)"
      by (intro exI [of _ sel]) simp
  next
    fix sel
    assume a: "data_select data = Inr sel"
      "\<forall>r \<in> set (dos_fields sel). 2 \<le> length r \<and> (\<forall>t \<in> set r. py_float t \<noteq> None)"
      "energy = map (\<lambda>r. fl_sub (the (py_float (r ! 0))) efermi) (dos_fields sel)"
      "dos = map (\<lambda>r. the (py_float (r ! 1))) (dos_fields sel)"
    from a(2) have l: "\<forall>r \<in> set (dos_fields sel). 2 \<le> length r" by simp
    from a l m [OF l] show "\<exists>sel xss. data_select data = Inr sel \<and>
        ((\<forall>r \<in> set (dos_fields sel). \<forall>t \<in> set r. py_float t \<noteq> None) \<and>
         xss = map (map ?g) (dos_fields sel)) \<and>
        (\<forall>xs \<in> set xss. 2 \<le> length xs) \<and>
        energy = map (\<lambda>xs. fl_sub (xs ! 0) efermi) xss \<and> dos = map (\<lambda>xs. xs ! 1) xss"
      by (intro exI [of _ sel] exI [of _ "map (map ?g) (dos_fields sel)"]) simp
  qed
qed

lemma read_formation_fields:
  "read_formation lines False = Inr ((Efermi, energy, charge), volume, gx) \<longleftrightarrow>
     read_header lines = Inr (volume, gx) \<and>
     (\<forall>r \<in> set (loadtxt_fields lines).
        3 \<le> length r \<and> np_float (r ! 0) \<noteq> None \<and> np_float (r ! 1) \<noteq> None \<and>
        np_float (r ! 2) \<noteq> None) \<and>
     Efermi = map (\<lambda>r. the (np_float (r ! 0))) (loadtxt_fields lines) \<and>
     energy = map (\<lambda>r. the (np_float (r ! 1))) (loadtxt_fields lines) \<and>
     charge = map (\<lambda>r. the (np_float (r ! 2))) (loadtxt_fields lines)"
  unfolding read_formation_Inr loadtxt_usecols_Inr parse_rows_Inr
  by (auto simp: comp_def)

lemma read_dos_unordered:
  "read_dos [''3.0 1.0'' @ [newline], ''2.0 1.0'' @ [newline], ''1.0 2.0'' @ [newline],
             ''0.5 1.5'' @ [newline]] (Finite 0)
     = Inr ([Finite 3, Finite 2, Finite 1, Finite (1 / 2)],
            [Finite 1, Finite 1, Finite 2, Finite (3 / 2)])"
  by (simp add: read_dos_def data_select_def text_simps Let_def)

text \<open>
  Claim C7 fails as stated: a DOS table whose energies decrease is read without any error,
  and the energies are returned in the order of the file.
\<close>

theorem unordered_table_counterexample:
  "read_dos [''3.0 1.0'' @ [newline], ''2.0 1.0'' @ [newline], ''1.0 2.0'' @ [newline],
             ''0.5 1.5'' @ [newline]] (Finite 0)
     = Inr ([Finite 3, Finite 2, Finite 1, Finite (1 / 2)],
            [Finite 1, Finite 1, Finite 2, Finite (3 / 2)])
 \<and> \<not> sorted_wrt (<) [3, 2, 1, 1 / 2 :: real]"
  using read_dos_unordered by simp

text \<open>
  Claim C7, as amended. The readers check that the fields they use are there and are
  numbers; they never check the order of a column, and their failures are the built-in
  \<open>ValueError\<close> and \<open>IndexError\<close>.

  \<open>read_dos\<close>, on a file of at least four lines, returns a result exactly when the lines
  of its table can be selected and every such line that does not start with \<open>#\<close> has at
  least two fields, all of which \<open>float\<close> accepts. The table is the whole file, unless the
  first, third and fourth line have four, one and one field: then the file must have six
  lines, the third field of the sixth must be an integer \<open>NEDOS\<close>, and the table is
  \<open>data[6:6+NEDOS]\<close>. The result holds, line by line in the order of the file, the first
  number less \<open>efermi\<close> and the second number. Every failure is an \<open>IndexError\<close> or a
  \<open>ValueError\<close>.

  \<open>read_formation\<close>, without \<open>to_reduce\<close>, returns a result exactly when the first line ends
  in two fields that \<open>float\<close> accepts and every line that is not blank or a comment has at
  least three fields, the first three of which \<open>np.loadtxt\<close> accepts. The result holds the
  three columns in the order of the file. Every failure is a \<open>ValueError\<close>.
\<close>

theorem readers_check_shape_only:
  assumes "4 \<le> length data"
  shows "(read_dos data efermi = Inr (energy, dos) \<longleftrightarrow>
            (\<exists>sel. data_select data = Inr sel \<and>
               (\<forall>r \<in> set (dos_fields sel).
                  2 \<le> length r \<and> (\<forall>t \<in> set r. py_float t \<noteq> None)) \<and>
               energy = map (\<lambda>r. fl_sub (the (py_float (r ! 0))) efermi) (dos_fields sel) \<and>
               dos = map (\<lambda>r. the (py_float (r ! 1))) (dos_fields sel)))
       \<and> (\<not> (length (py_split (py_strip (data ! 0))) = 4 \<and>
               length (py_split (py_strip (data ! 2))) = 1 \<and>
               length (py_split (py_strip (data ! 3))) = 1) \<longrightarrow>
            data_select data = Inr data)
       \<and> (length (py_split (py_strip (data ! 0))) = 4 \<and>
            length (py_split (py_strip (data ! 2))) = 1 \<and>
            length (py_split (py_strip (data ! 3))) = 1 \<longrightarrow>
            (data_select data = Inr sel' \<longleftrightarrow>
               6 \<le> length data \<and> 3 \<le> length (py_split (py_strip (data ! 5))) \<and>
               (\<exists>NEDOS. py_int (py_split (py_strip (data ! 5)) ! 2) = Some NEDOS \<and>
                        sel' = py_slice data 6 (6 + NEDOS))))
       \<and> (read_dos data efermi = Inl e \<longrightarrow> e = IndexError \<or> e = ValueError)
       \<and> (read_formation lines False = Inr ((Efermi, energy', charge), volume, gx) \<longleftrightarrow>
            read_header lines = Inr (volume, gx) \<and>
            (\<forall>r \<in> set (loadtxt_fields lines).
               3 \<le> length r \<and> np_float (r ! 0) \<noteq> None \<and> np_float (r ! 1) \<noteq> None \<and>
               np_float (r ! 2) \<noteq> None) \<and>
            Efermi = map (\<lambda>r. the (np_float (r ! 0))) (loadtxt_fields lines) \<and>
            energy' = map (\<lambda>r. the (np_float (r ! 1))) (loadtxt_fields lines) \<and>
            charge = map (\<lambda>r. the (np_float (r ! 2))) (loadtxt_fields lines))
       \<and> (read_header lines = Inr (volume, gx) \<longleftrightarrow>
            2 \<le> length (py_split (py_strip (case lines of [] \<Rightarrow> [] | l # _ \<Rightarrow> l))) \<and>
            py_float (py_split (py_strip (case lines of [] \<Rightarrow> [] | l # _ \<Rightarrow> l)) !
               (length (py_split (py_strip (case lines of [] \<Rightarrow> [] | l # _ \<Rightarrow> l))) - 2))
              = Some volume \<and>
            py_float (last (py_split (py_strip (case lines of [] \<Rightarrow> [] | l # _ \<Rightarrow> l))))
              = Some gx)
       \<and> (read_formation lines False = Inl e' \<longrightarrow> e' = ValueError)"
proof (intro conjI impI)
  show "read_dos data efermi = Inr (energy, dos) \<longleftrightarrow>
            (\<exists>sel. data_select data = Inr sel \<and>
               (\<forall>r \<in> set (dos_fields sel).
                  2 \<le> length r \<and> (\<forall>t \<in> set r. py_float t \<noteq> None)) \<and>
               energy = map (\<lambda>r. fl_sub (the (py_float (r ! 0))) efermi) (dos_fields sel) \<and>
               dos = map (\<lambda>r. the (py_float (r ! 1))) (dos_fields sel))"
    by (rule read_dos_fields)
next
  assume "\<not> (length (py_split (py_strip (data ! 0))) = 4 \<and>
               length (py_split (py_strip (data ! 2))) = 1 \<and>
               length (py_split (py_strip (data ! 3))) = 1)"
  then show "data_select data = Inr data" by (rule data_select_plain [OF assms])
next
  assume "length (py_split (py_strip (data ! 0))) = 4 \<and>
            length (py_split (py_strip (data ! 2))) = 1 \<and>
            length (py_split (py_strip (data ! 3))) = 1"
  then show "data_select data = Inr sel' \<longleftrightarrow>
               6 \<le> length data \<and> 3 \<le> length (py_split (py_strip (data ! 5))) \<and>
               (\<exists>NEDOS. py_int (py_split (py_strip (data ! 5)) ! 2) = Some NEDOS \<and>
                        sel' = py_slice data 6 (6 + NEDOS))"
    using data_select_header [OF assms, of sel'] by blast
next
  assume "read_dos data efermi = Inl e"
  then show "e = IndexError \<or> e = ValueError" by (rule read_dos_Inl)
next
  show "read_formation lines False = Inr ((Efermi, energy', charge), volume, gx) \<longleftrightarrow>
            read_header lines = Inr (volume, gx) \<and>
            (\<forall>r \<in> set (loadtxt_fields lines).
               3 \<le> length r \<and> np_float (r ! 0) \<noteq> None \<and> np_float (r ! 1) \<noteq> None \<and>
               np_float (r ! 2) \<noteq> None) \<and>
            Efermi = map (\<lambda>r. the (np_float (r ! 0))) (loadtxt_fields lines) \<and>
            energy' = map (\<lambda>r. the (np_float (r ! 1))) (loadtxt_fields lines) \<and>
            charge = map (\<lambda>r. the (np_float (r ! 2))) (loadtxt_fields lines)"
    by (rule read_formation_fields)
next
  show "read_header lines = Inr (volume, gx) \<longleftrightarrow>
            2 \<le> length (py_split (py_strip (case lines of [] \<Rightarrow> [] | l # _ \<Rightarrow> l))) \<and>
            py_float (py_split (py_strip (case lines of [] \<Rightarrow> [] | l # _ \<Rightarrow> l)) !
               (length (py_split (py_strip (case lines of [] \<Rightarrow> [] | l # _ \<Rightarrow> l))) - 2))
              = Some volume \<and>
            py_float (last (py_split (py_strip (case lines of [] \<Rightarrow> [] | l # _ \<Rightarrow> l))))
              = Some gx"
    by (rule read_header_Inr)
next
  assume "read_formation lines False = Inl e'"
  then show "e' = ValueError" by (rule read_formation_Inl)
qed

theorem readers_check_shape_only_witness:
  "4 \<le> length [''3.0 1.0'' @ [newline], ''2.0 1.0'' @ [newline], ''1.0 2.0'' @ [newline],
                ''0.5 1.5'' @ [newline]]
 \<and> data_select [''3.0 1.0'' @ [newline], ''2.0 1.0'' @ [newline], ''1.0 2.0'' @ [newline],
                ''0.5 1.5'' @ [newline]]
     = Inr [''3.0 1.0'' @ [newline], ''2.0 1.0'' @ [newline], ''1.0 2.0'' @ [newline],
            ''0.5 1.5'' @ [newline]]
 \<and> dos_fields [''3.0 1.0'' @ [newline], ''2.0 1.0'' @ [newline], ''1.0 2.0'' @ [newline],
               ''0.5 1.5'' @ [newline]]
     = [[''3.0'', ''1.0''], [''2.0'', ''1.0''], [''1.0'', ''2.0''], [''0.5'', ''1.5'']]
 \<and> list_all (\<lambda>r. 2 \<le> length r \<and> list_all (\<lambda>t. py_float t \<noteq> None) r)
       [[''3.0'', ''1.0''], [''2.0'', ''1.0''], [''1.0'', ''2.0''], [''0.5'', ''1.5'']]
 \<and> read_dos [''3.0 1.0'' @ [newline], ''2.0 1.0'' @ [newline], ''1.0 2.0'' @ [newline],
             ''0.5 1.5'' @ [newline]] (Finite (1 / 2))
     = Inr ([Finite (5 / 2), Finite (3 / 2), Finite (1 / 2), Finite 0],
            [Finite 1, Finite 1, Finite 2, Finite (3 / 2)])
 \<and> 4 \<le> length [''3.0 1.0'' @ [newline], ''2.0 x'' @ [newline], ''1.0 2.0'' @ [newline],
                ''0.5 1.5'' @ [newline]]
 \<and> read_dos [''3.0 1.0'' @ [newline], ''2.0 x'' @ [newline], ''1.0 2.0'' @ [newline],
             ''0.5 1.5'' @ [newline]] (Finite 0) = Inl ValueError
 \<and> (ValueError = IndexError \<or> ValueError = ValueError)"
proof -
  let ?D = "[''3.0 1.0'' @ [newline], ''2.0 1.0'' @ [newline], ''1.0 2.0'' @ [newline],
             ''0.5 1.5'' @ [newline]]"
  let ?B = "[''3.0 1.0'' @ [newline], ''2.0 x'' @ [newline], ''1.0 2.0'' @ [newline],
             ''0.5 1.5'' @ [newline]]"
  let ?F = "[[''3.0'', ''1.0''], [''2.0'', ''1.0''], [''1.0'', ''2.0''], [''0.5'', ''1.5'']]"
  let ?en = "[Finite (5 / 2), Finite (3 / 2), Finite (1 / 2), Finite 0]"
  let ?ds = "[Finite 1, Finite 1, Finite 2, Finite (3 / 2)]"
  have h: "4 \<le> length ?D" "4 \<le> length ?B" by simp_all
  have a: "data_select ?D = Inr ?D" by (simp add: data_select_def text_simps Let_def)
  have b: "dos_fields ?D = ?F" by (simp add: dos_fields_def text_simps)
  have c: "\<forall>r \<in> set ?F. 2 \<le> length r \<and> (\<forall>t \<in> set r. py_float t \<noteq> None)"
    by (simp add: text_simps)
  have m: "?en = map (\<lambda>r. fl_sub (the (py_float (r ! 0))) (Finite (1 / 2))) ?F"
    "?ds = map (\<lambda>r. the (py_float (r ! 1))) ?F"
    by (simp_all add: text_simps)
  have s: "read_dos ?B (Finite 0) = Inl ValueError"
    by (simp add: read_dos_def data_select_def text_simps Let_def)
  note t = readers_check_shape_only [OF h(1), where efermi = "Finite (1 / 2)"
      and energy = ?en and dos = ?ds]
  note u = readers_check_shape_only [OF h(2), where efermi = "Finite 0" and e = ValueError]
  have ex: "\<exists>sel. data_select ?D = Inr sel \<and>
         (\<forall>r \<in> set (dos_fields sel). 2 \<le> length r \<and> (\<forall>t \<in> set r. py_float t \<noteq> None)) \<and>
         ?en = map (\<lambda>r. fl_sub (the (py_float (r ! 0))) (Finite (1 / 2))) (dos_fields sel) \<and>
         ?ds = map (\<lambda>r. the (py_float (r ! 1))) (dos_fields sel)"
    using a c m unfolding b [symmetric] by (intro exI [of _ ?D] conjI)
  have r: "read_dos ?D (Finite (1 / 2)) = Inr (?en, ?ds)"
    by (rule iffD2 [OF t [THEN conjunct1] ex])
  from u s have d: "ValueError = IndexError \<or> ValueError = ValueError" by blast
  have l: "list_all (\<lambda>r. 2 \<le> length r \<and> list_all (\<lambda>t. py_float t \<noteq> None) r) ?F"
    using c by (simp add: list_all_iff)
  from h a b l r s d show ?thesis by (intro conjI)
qed

end
